theory Spec2Isabelle
  imports Complex_Main
begin

section \<open>Space Defenders: the game loop of src/game.py\<close>

text \<open>
  The development embeds \<^verbatim>\<open>Game.play\<close> (src/game.py, lines 743-892) and the sprite
  classes it drives (\<^verbatim>\<open>Window\<close>, \<^verbatim>\<open>Player\<close>, \<^verbatim>\<open>Bullet\<close>, \<^verbatim>\<open>Meteoroid\<close>).

  Conventions of the embedding:
  \<^item> Python integers are \<open>int\<close>. \<^verbatim>\<open>meteoroid_speed\<close> starts as the integer 4 and
    becomes a float by \<^verbatim>\<open>+= 0.25\<close>; every value it takes is a multiple of 1/4, which
    binary floating point represents exactly, so it is a \<open>rat\<close>.
  \<^item> A \<^verbatim>\<open>pygame.Rect\<close> holds four integers. Its constructor drops the fraction of a
    float argument (rounding towards zero), written \<open>trunc\<close> below. What an assignment to
    a coordinate does with a float that has a fraction depends on the version of pygame
    (towards zero before 2.1.3, to the nearest integer from 2.1.3 on); that conversion is
    the parameter \<open>c\<close> of the functions that move a meteoroid, and every property below
    holds for every conversion. An integral value is stored as it is.
  \<^item> A \<^verbatim>\<open>pygame.sprite.Group\<close> is the list of its sprites in insertion order (the
    order in which the group is iterated). Meteoroids are tracked from one frame to the
    next, so each carries the identity of its Python object as a number \<open>m_id\<close>, drawn
    from the counter \<open>next_id\<close>. Bullets are only created, moved and killed, so a
    bullet is its rectangle.
  \<^item> What the loop reads from outside is an input of the frame: the event queue, the
    pressed keys, the clock, and the draw of \<^verbatim>\<open>random.uniform\<close> (carried by the spawn
    event that consumes it).
  \<^item> \<^verbatim>\<open>len(game.image_meteoroid)\<close> is the number of files in an asset folder; it is
    the parameter \<open>n\<close> of the functions that depend on it. The read
    \<^verbatim>\<open>game.image_meteoroid[self.state]\<close> raises \<^verbatim>\<open>IndexError\<close> out of range, which
    is a result of the model. The other image lists are read at constant or bounded
    indices only and are taken to be populated; drawing, sound and the background
    scroll do not touch the state below and are left out.
  \<^item> \<^verbatim>\<open>while True\<close> never returns: the loop is a function of one frame,
    \<open>play_frame\<close>, iterated over the list of the inputs of the frames, \<open>play_loop\<close>.
    \<^verbatim>\<open>menu.gameover(score)\<close> does not return to the loop and \<^verbatim>\<open>sys.exit()\<close> ends the
    process; both end the run.
\<close>

subsection \<open>Rectangles and window borders\<close>

definition windowwidth :: int where
  "windowwidth = 1280"

definition windowheight :: int where
  "windowheight = 720"

record rect =
  rect_x :: int
  rect_y :: int
  rect_w :: int
  rect_h :: int

definition Rect :: "int \<Rightarrow> int \<Rightarrow> int \<Rightarrow> int \<Rightarrow> rect" where
  "Rect x y w h = \<lparr>rect_x = x, rect_y = y, rect_w = w, rect_h = h\<rparr>"

definition trunc :: "rat \<Rightarrow> int" where
  "trunc q = (if 0 \<le> q then \<lfloor>q\<rfloor> else \<lceil>q\<rceil>)"

text \<open>
  The integer that \<^verbatim>\<open>rect.x = q\<close> stores, where \<open>c\<close> is the conversion that pygame applies
  to a float with a fraction.
\<close>

definition rect_store :: "(rat \<Rightarrow> int) \<Rightarrow> rat \<Rightarrow> int" where
  "rect_store c q = (if of_int \<lfloor>q\<rfloor> = q then \<lfloor>q\<rfloor> else c q)"

text \<open>\<^verbatim>\<open>Rect.colliderect\<close>: the rectangles share a point; an empty rectangle collides with nothing.\<close>

definition colliderect :: "rect \<Rightarrow> rect \<Rightarrow> bool" where
  "colliderect A B =
     (if rect_w A = 0 \<or> rect_h A = 0 \<or> rect_w B = 0 \<or> rect_h B = 0 then False
      else min (rect_x A) (rect_x A + rect_w A) < max (rect_x B) (rect_x B + rect_w B)
         \<and> min (rect_y A) (rect_y A + rect_h A) < max (rect_y B) (rect_y B + rect_h B)
         \<and> max (rect_x A) (rect_x A + rect_w A) > min (rect_x B) (rect_x B + rect_w B)
         \<and> max (rect_y A) (rect_y A + rect_h A) > min (rect_y B) (rect_y B + rect_h B))"

text \<open>\<^verbatim>\<open>Window(x)\<close>, and the two borders \<^verbatim>\<open>window_left\<close> and \<^verbatim>\<open>window_right\<close>.\<close>

definition Window :: "int \<Rightarrow> rect" where
  "Window x = Rect x 0 11 windowheight"

definition window_left :: rect where
  "window_left = Window (- 96)"

definition window_right :: rect where
  "window_right = Window (windowwidth + 96)"

subsection \<open>Sprites\<close>

text \<open>
  \<^verbatim>\<open>Player()\<close>: the ship image is scaled to 118 x 75 by \<^verbatim>\<open>Image_List\<close>, and
  \<^verbatim>\<open>windowheight/2\<close> is the float 360.0.
\<close>

definition Player :: rect where
  "Player = Rect 100 (trunc (of_int windowheight / 2)) 118 75"

definition Bullet :: "int \<Rightarrow> int \<Rightarrow> rect" where
  "Bullet x y = Rect (x + 140) (y + 30) 15 12"

definition Bullet_update :: "int \<Rightarrow> rect \<Rightarrow> rect" where
  "Bullet_update speed b = b\<lparr>rect_x := rect_x b + speed\<rparr>"

definition Player_shoot :: "rect \<Rightarrow> rect" where
  "Player_shoot p = Bullet (rect_x p) (rect_y p)"

record meteoroid =
  m_id :: nat
  m_rect :: rect
  m_state :: int

text \<open>\<^verbatim>\<open>Meteoroid(y)\<close>; \<open>i\<close> is the identity of the new object.\<close>

definition Meteoroid :: "nat \<Rightarrow> rat \<Rightarrow> meteoroid" where
  "Meteoroid i y = \<lparr>m_id = i, m_rect = Rect windowwidth (trunc y) 38 33, m_state = 0\<rparr>"

datatype error = IndexError

text \<open>A Python list of length \<open>n\<close> can be read at \<open>i\<close> (negative indices count from the end).\<close>

definition index_ok :: "nat \<Rightarrow> int \<Rightarrow> bool" where
  "index_ok n i = (- int n \<le> i \<and> i < int n)"

text \<open>
  \<^verbatim>\<open>Meteoroid.update(speed)\<close>, with \<open>n\<close> images of the explosion and the conversion \<open>c\<close>
  of \<^verbatim>\<open>self.rect.x -= speed\<close>. The result is the updated sprite and whether it called
  \<^verbatim>\<open>self.kill()\<close>, or the \<^verbatim>\<open>IndexError\<close> of the image lookup.
\<close>

definition Meteoroid_update ::
  "nat \<Rightarrow> (rat \<Rightarrow> int) \<Rightarrow> rat \<Rightarrow> meteoroid \<Rightarrow> error + (meteoroid \<times> bool)" where
  "Meteoroid_update n c speed m =
     (let killed = (m_state m + 1 = int n);
          m1 = (if killed then m
                else if m_state m > 0 then m\<lparr>m_state := m_state m + 1\<rparr>
                else m);
          m2 = m1\<lparr>m_rect := (m_rect m1)\<lparr>rect_x := rect_store c (of_int (rect_x (m_rect m1)) - speed)\<rparr>\<rparr>
      in if index_ok n (m_state m2) then Inr (m2, killed) else Inl IndexError)"

subsection \<open>Sprite groups\<close>

definition ids :: "meteoroid list \<Rightarrow> nat set" where
  "ids g = m_id ` set g"

text \<open>\<^verbatim>\<open>Group.add\<close> and \<^verbatim>\<open>Group.remove\<close>: a sprite is in a group at most once.\<close>

definition group_add :: "meteoroid \<Rightarrow> meteoroid list \<Rightarrow> meteoroid list" where
  "group_add m g = (if m_id m \<in> ids g then g else g @ [m])"

definition group_remove :: "meteoroid \<Rightarrow> meteoroid list \<Rightarrow> meteoroid list" where
  "group_remove m g = filter (\<lambda>m'. m_id m' \<noteq> m_id m) g"

text \<open>
  \<^verbatim>\<open>Group.update(speed)\<close> on a group of meteoroids: every sprite of the group is
  updated in turn; the ones that killed themselves have left the group.
\<close>

fun group_update ::
  "nat \<Rightarrow> (rat \<Rightarrow> int) \<Rightarrow> rat \<Rightarrow> meteoroid list \<Rightarrow> error + meteoroid list" where
  "group_update n c speed [] = Inr []"
| "group_update n c speed (m # ms) =
     (case Meteoroid_update n c speed m of
        Inl e \<Rightarrow> Inl e
      | Inr (m', killed) \<Rightarrow>
          (case group_update n c speed ms of
             Inl e \<Rightarrow> Inl e
           | Inr ms' \<Rightarrow> Inr (if killed then ms' else m' # ms')))"

text \<open>
  \<^verbatim>\<open>pygame.sprite.spritecollide(sprite, group, True)\<close>: the sprites of the group that
  collide with the rectangle are killed and returned; the second component is the
  group afterwards.
\<close>

definition spritecollide :: "rect \<Rightarrow> ('a \<Rightarrow> rect) \<Rightarrow> 'a list \<Rightarrow> 'a list \<times> 'a list" where
  "spritecollide r rect_of g =
     (filter (\<lambda>x. colliderect r (rect_of x)) g, filter (\<lambda>x. \<not> colliderect r (rect_of x)) g)"

text \<open>
  \<^verbatim>\<open>pygame.sprite.groupcollide(meteoroid_group, bullet_group, False, True)\<close>: for every
  meteoroid in turn, the bullets still in the group that collide with it are killed;
  a meteoroid with such a bullet becomes a key of the returned dictionary. The result
  is the dictionary in insertion order and the bullet group afterwards.
\<close>

fun groupcollide :: "meteoroid list \<Rightarrow> rect list \<Rightarrow> (meteoroid \<times> rect list) list \<times> rect list" where
  "groupcollide [] bs = ([], bs)"
| "groupcollide (m # ms) bs =
     (let (collision, bs') = spritecollide (m_rect m) (\<lambda>b. b) bs;
          (crashed, bs'') = groupcollide ms bs'
      in (if collision \<noteq> [] then (m, collision) # crashed else crashed, bs''))"

subsection \<open>The state of a run\<close>

record keys =
  K_a :: bool
  K_d :: bool
  K_w :: bool
  K_s :: bool
  K_SPACE :: bool
  K_ESCAPE :: bool

text \<open>
  An event of the queue. \<open>METEOROID_TIMER y\<close> carries the value that
  \<^verbatim>\<open>random.uniform(33, windowheight - 33)\<close> returns when the event is handled.
\<close>

datatype event = METEOROID_TIMER rat | DIFFICULTY_INCREASE | QUIT | OTHER

record frame_input =
  events :: "event list"
  key :: keys
  ticks :: int

text \<open>
  The local and global variables of \<^verbatim>\<open>play\<close>. \<open>timer_period\<close> is the period of the
  spawn timer as last set by \<^verbatim>\<open>pygame.time.set_timer(METEOROID_TIMER, ...)\<close>.
\<close>

record game_state =
  score :: int
  left :: bool
  right :: bool
  up :: bool
  down :: bool
  move :: int
  stand :: int
  meteoroid_speed :: rat
  meteoroid_timer :: int
  timer_period :: int
  previous_time :: int
  player :: rect
  bullet_group :: "rect list"
  meteoroid_group :: "meteoroid list"
  meteoroid_group_exploded :: "meteoroid list"
  next_id :: nat

definition player_speed :: int where
  "player_speed = 3"

text \<open>The state before the first frame; \<open>t0\<close> is the clock when \<^verbatim>\<open>play\<close> is entered.\<close>

definition play_init :: "int \<Rightarrow> game_state" where
  "play_init t0 =
     \<lparr>score = 0, left = False, right = False, up = False, down = False,
      move = 0, stand = 0, meteoroid_speed = 4, meteoroid_timer = 1500,
      timer_period = 1500, previous_time = t0, player = Player,
      bullet_group = [], meteoroid_group = [], meteoroid_group_exploded = [],
      next_id = 0\<rparr>"

datatype outcome = Running game_state | GameOver int | Quit | Crash error

subsection \<open>One frame\<close>

text \<open>Lines 797-802: the flags are cleared and the frame is counted.\<close>

definition begin_frame :: "game_state \<Rightarrow> game_state" where
  "begin_frame s = s\<lparr>left := False, right := False, up := False, down := False,
                     score := score s + 1\<rparr>"

text \<open>Lines 808-812: the difficulty timer fired.\<close>

definition difficulty_increase :: "game_state \<Rightarrow> game_state" where
  "difficulty_increase s =
     (let s1 = s\<lparr>meteoroid_speed := meteoroid_speed s + 1 / 4\<rparr>;
          s2 = (if meteoroid_timer s1 > 200
                then s1\<lparr>meteoroid_timer := meteoroid_timer s1 - 100\<rparr> else s1)
      in s2\<lparr>timer_period := meteoroid_timer s2\<rparr>)"

text \<open>Lines 805-806: the spawn timer fired.\<close>

definition spawn :: "rat \<Rightarrow> game_state \<Rightarrow> game_state" where
  "spawn y s = s\<lparr>meteoroid_group := group_add (Meteoroid (next_id s) y) (meteoroid_group s),
                 next_id := Suc (next_id s)\<rparr>"

text \<open>Lines 804-818: the event loop; \<open>None\<close> is \<^verbatim>\<open>sys.exit()\<close>.\<close>

fun handle_events :: "game_state \<Rightarrow> event list \<Rightarrow> game_state option" where
  "handle_events s [] = Some s"
| "handle_events s (METEOROID_TIMER y # es) = handle_events (spawn y s) es"
| "handle_events s (DIFFICULTY_INCREASE # es) = handle_events (difficulty_increase s) es"
| "handle_events s (QUIT # es) = None"
| "handle_events s (OTHER # es) = handle_events s es"

text \<open>Lines 822-856: the four direction keys, each with its own \<^verbatim>\<open>if\<close>.\<close>

definition set_flags :: "bool \<Rightarrow> bool \<Rightarrow> bool \<Rightarrow> bool \<Rightarrow> game_state \<Rightarrow> game_state" where
  "set_flags l r u d s = s\<lparr>left := l, right := r, up := u, down := d\<rparr>"

definition move_x :: "int \<Rightarrow> game_state \<Rightarrow> game_state" where
  "move_x dx s = s\<lparr>player := (player s)\<lparr>rect_x := rect_x (player s) + dx\<rparr>\<rparr>"

definition move_y :: "int \<Rightarrow> game_state \<Rightarrow> game_state" where
  "move_y dy s = s\<lparr>player := (player s)\<lparr>rect_y := rect_y (player s) + dy\<rparr>\<rparr>"

definition key_a :: "game_state \<Rightarrow> game_state" where
  "key_a s = (let s1 = set_flags True False False False s
              in if rect_x (player s1) \<ge> 0 then move_x (- player_speed) s1 else s1)"

definition key_d :: "game_state \<Rightarrow> game_state" where
  "key_d s = (let s1 = set_flags False True False False s
              in if rect_x (player s1) \<le> windowwidth - 50 then move_x player_speed s1 else s1)"

definition key_w :: "game_state \<Rightarrow> game_state" where
  "key_w s = (let s1 = set_flags False False True False s
              in if rect_y (player s1) \<ge> 0 then move_y (- player_speed) s1 else s1)"

definition key_s :: "game_state \<Rightarrow> game_state" where
  "key_s s = (let s1 = set_flags False False False True s
              in if rect_y (player s1) \<le> windowheight - 50 then move_y player_speed s1 else s1)"

definition handle_keys :: "keys \<Rightarrow> game_state \<Rightarrow> game_state" where
  "handle_keys k s =
     (let s1 = (if K_a k then key_a s else s);
          s2 = (if K_d k then key_d s1 else s1);
          s3 = (if K_w k then key_w s2 else s2)
      in if K_s k then key_s s3 else s3)"

text \<open>Lines 858-863: the shot and its cooldown; \<open>current_time\<close> is the clock of the frame.\<close>

definition handle_space :: "keys \<Rightarrow> int \<Rightarrow> game_state \<Rightarrow> game_state" where
  "handle_space k current_time s =
     (if K_SPACE k then
        (if current_time - previous_time s > 500
         then s\<lparr>previous_time := current_time,
                bullet_group := bullet_group s @ [Player_shoot (player s)]\<rparr>
         else s)
      else s)"

text \<open>\<^verbatim>\<open>Player.update()\<close>: the two animation counters.\<close>

definition Player_update :: "game_state \<Rightarrow> game_state" where
  "Player_update s =
     (let s1 = (if move s + 1 \<ge> 4 then s\<lparr>move := 0\<rparr> else s);
          s2 = (if stand s1 + 1 \<ge> 4 then s1\<lparr>stand := 0\<rparr> else s1)
      in if left s2 \<or> right s2 then s2\<lparr>move := move s2 + 1\<rparr>
         else s2\<lparr>stand := stand s2 + 1\<rparr>)"

text \<open>
  Lines 879-883: the loop over the keys of \<^verbatim>\<open>hit\<close>. The sprite is the object that is
  in \<^verbatim>\<open>meteoroid_group\<close>; it enters the other group with its state already raised.
\<close>

fun hit_loop :: "meteoroid list \<Rightarrow> game_state \<Rightarrow> game_state" where
  "hit_loop [] s = s"
| "hit_loop (sprite # hit) s =
     hit_loop hit
       (s\<lparr>meteoroid_group := group_remove sprite (meteoroid_group s),
          meteoroid_group_exploded :=
            group_add (sprite\<lparr>m_state := m_state sprite + 1\<rparr>) (meteoroid_group_exploded s),
          score := score s + 100\<rparr>)"

text \<open>Lines 878-883: bullets against meteoroids.\<close>

definition resolve_hits :: "game_state \<Rightarrow> game_state" where
  "resolve_hits s =
     (let (hit, bs) = groupcollide (meteoroid_group s) (bullet_group s)
      in hit_loop (map fst hit) (s\<lparr>bullet_group := bs\<rparr>))"

text \<open>Lines 885-886: the window borders.\<close>

definition prune :: "game_state \<Rightarrow> game_state" where
  "prune s =
     s\<lparr>bullet_group := snd (spritecollide window_right (\<lambda>b. b) (bullet_group s)),
       meteoroid_group := snd (spritecollide window_left m_rect (meteoroid_group s))\<rparr>"

text \<open>Lines 888-890: the three group updates.\<close>

definition update_groups :: "nat \<Rightarrow> (rat \<Rightarrow> int) \<Rightarrow> game_state \<Rightarrow> outcome" where
  "update_groups n c s =
     (case group_update n c (meteoroid_speed s) (meteoroid_group s) of
        Inl e \<Rightarrow> Crash e
      | Inr alive \<Rightarrow>
          (case group_update n c (meteoroid_speed s) (meteoroid_group_exploded s) of
             Inl e \<Rightarrow> Crash e
           | Inr exploded \<Rightarrow>
               Running (s\<lparr>meteoroid_group := alive,
                          meteoroid_group_exploded := exploded,
                          bullet_group := map (Bullet_update 5) (bullet_group s)\<rparr>)))"

text \<open>Lines 797-863: the state when the frame has read its input; \<open>None\<close> is \<^verbatim>\<open>sys.exit()\<close>.\<close>

definition read_input :: "game_state \<Rightarrow> frame_input \<Rightarrow> game_state option" where
  "read_input s inp =
     (case handle_events (begin_frame s) (events inp) of
        None \<Rightarrow> None
      | Some s1 \<Rightarrow> Some (handle_space (key inp) (ticks inp) (handle_keys (key inp) s1)))"

text \<open>Lines 865-892: the rest of the frame.\<close>

definition finish_frame :: "nat \<Rightarrow> (rat \<Rightarrow> int) \<Rightarrow> keys \<Rightarrow> game_state \<Rightarrow> outcome" where
  "finish_frame n c k s =
     (if K_ESCAPE k then GameOver (score s)
      else
        (let s1 = Player_update s;
             (gameover, alive) = spritecollide (player s1) m_rect (meteoroid_group s1)
         in if length gameover \<noteq> 0 then GameOver (score s1)
            else update_groups n c (prune (resolve_hits (s1\<lparr>meteoroid_group := alive\<rparr>)))))"

definition play_frame :: "nat \<Rightarrow> (rat \<Rightarrow> int) \<Rightarrow> game_state \<Rightarrow> frame_input \<Rightarrow> outcome" where
  "play_frame n c s inp =
     (case read_input s inp of
        None \<Rightarrow> Quit
      | Some s1 \<Rightarrow> finish_frame n c (key inp) s1)"

subsection \<open>A run\<close>

fun play_loop :: "nat \<Rightarrow> (rat \<Rightarrow> int) \<Rightarrow> game_state \<Rightarrow> frame_input list \<Rightarrow> outcome" where
  "play_loop n c s [] = Running s"
| "play_loop n c s (inp # inps) =
     (case play_frame n c s inp of
        Running s' \<Rightarrow> play_loop n c s' inps
      | GameOver sc \<Rightarrow> GameOver sc
      | Quit \<Rightarrow> Quit
      | Crash e \<Rightarrow> Crash e)"

definition play :: "nat \<Rightarrow> (rat \<Rightarrow> int) \<Rightarrow> int \<Rightarrow> frame_input list \<Rightarrow> outcome" where
  "play n c t0 inps = play_loop n c (play_init t0) inps"

section \<open>Notions used by the statements\<close>

text \<open>
  The number of \<^verbatim>\<open>DIFFICULTY_INCREASE\<close> events in an event queue, and in all the
  queues of a run.
\<close>

definition escalations :: "event list \<Rightarrow> nat" where
  "escalations es = length (filter (\<lambda>e. e = DIFFICULTY_INCREASE) es)"

definition fires :: "frame_input list \<Rightarrow> nat" where
  "fires inps = escalations (concat (map events inps))"

text \<open>
  The spawn interval is a multiple of 100 that is at least 200, and the spawn timer runs
  with it.
\<close>

definition timer_ok :: "game_state \<Rightarrow> bool" where
  "timer_ok s \<longleftrightarrow> 200 \<le> meteoroid_timer s \<and> 100 dvd meteoroid_timer s
                 \<and> timer_period s = meteoroid_timer s"

text \<open>
  The positions the player takes in a run: the start is (100, 360) and every move is 3
  pixels along one axis.
\<close>

definition player_ok :: "rect \<Rightarrow> bool" where
  "player_ok p \<longleftrightarrow> rect_x p mod 3 = 1 \<and> - 2 \<le> rect_x p \<and> rect_x p \<le> 1231
                  \<and> rect_y p mod 3 = 0 \<and> - 3 \<le> rect_y p \<and> rect_y p \<le> 672"

text \<open>
  The first meteoroid of a group, in the order of the group, that a bullet collides with;
  a meteoroid is hit when it is that meteoroid for some bullet.
\<close>

definition first_overlap :: "meteoroid list \<Rightarrow> rect \<Rightarrow> meteoroid option" where
  "first_overlap ms b = find (\<lambda>m. colliderect (m_rect m) b) ms"

definition hit_by :: "meteoroid list \<Rightarrow> rect list \<Rightarrow> meteoroid \<Rightarrow> bool" where
  "hit_by ms bs m \<longleftrightarrow> (\<exists>b\<in>set bs. first_overlap ms b = Some m)"

text \<open>Line 880, \<^verbatim>\<open>sprite.state += 1\<close>.\<close>

definition explode :: "meteoroid \<Rightarrow> meteoroid" where
  "explode m = m\<lparr>m_state := m_state m + 1\<rparr>"

text \<open>
  The invariant of the two meteoroid groups: no sprite is in a group twice or in both
  groups, the alive ones have state 0, the exploding ones a positive state, and every
  identity in use was handed out by the counter.
\<close>

definition groups_ok :: "game_state \<Rightarrow> bool" where
  "groups_ok s \<longleftrightarrow>
     distinct (map m_id (meteoroid_group s @ meteoroid_group_exploded s))
     \<and> (\<forall>m\<in>set (meteoroid_group s). m_state m = 0)
     \<and> (\<forall>m\<in>set (meteoroid_group_exploded s). 1 \<le> m_state m)
     \<and> (\<forall>m\<in>set (meteoroid_group s @ meteoroid_group_exploded s). m_id m < next_id s)"

text \<open>A meteoroid after an update that did not kill it.\<close>

definition moved :: "(rat \<Rightarrow> int) \<Rightarrow> rat \<Rightarrow> meteoroid \<Rightarrow> meteoroid" where
  "moved c speed m =
     m\<lparr>m_state := (if m_state m > 0 then m_state m + 1 else m_state m),
       m_rect := (m_rect m)\<lparr>rect_x := rect_store c (of_int (rect_x (m_rect m)) - speed)\<rparr>\<rparr>"

text \<open>
  The invariant of the groups, with every exploding meteoroid at an index of the list of
  the \<open>n\<close> images of the explosion.
\<close>

definition frames_ok :: "nat \<Rightarrow> game_state \<Rightarrow> bool" where
  "frames_ok n s \<longleftrightarrow> groups_ok s \<and> (\<forall>m\<in>set (meteoroid_group_exploded s). m_state m < int n)"

text \<open>The keys of the dictionary \<^verbatim>\<open>hit\<close> (line 878) in the frame that starts in \<open>s\<close>.\<close>

definition frame_hits :: "game_state \<Rightarrow> frame_input \<Rightarrow> meteoroid list" where
  "frame_hits s inp =
     (case read_input s inp of
        None \<Rightarrow> []
      | Some s1 \<Rightarrow> map fst (fst (groupcollide (meteoroid_group s1) (bullet_group s1))))"

section \<open>Concrete inputs and states\<close>

text \<open>Inputs of single frames: no key, one key, two keys, a fired timer, a shot.\<close>

definition idle_keys :: keys where
  "idle_keys = \<lparr>K_a = False, K_d = False, K_w = False, K_s = False,
                 K_SPACE = False, K_ESCAPE = False\<rparr>"

definition idle_input :: frame_input where
  "idle_input = \<lparr>events = [], key = idle_keys, ticks = 0\<rparr>"

definition press :: "keys \<Rightarrow> frame_input" where
  "press k = \<lparr>events = [], key = k, ticks = 0\<rparr>"

definition left_keys :: keys where
  "left_keys = idle_keys\<lparr>K_a := True\<rparr>"

definition right_keys :: keys where
  "right_keys = idle_keys\<lparr>K_d := True\<rparr>"

definition up_keys :: keys where
  "up_keys = idle_keys\<lparr>K_w := True\<rparr>"

definition diagonal_keys :: keys where
  "diagonal_keys = idle_keys\<lparr>K_a := True, K_w := True\<rparr>"

definition escalate_input :: frame_input where
  "escalate_input = \<lparr>events = [DIFFICULTY_INCREASE], key = idle_keys, ticks = 0\<rparr>"

definition shoot_input :: "int \<Rightarrow> frame_input" where
  "shoot_input t = \<lparr>events = [], key = idle_keys\<lparr>K_SPACE := True\<rparr>, ticks = t\<rparr>"

text \<open>States without sprites, at the initial and at a raised difficulty.\<close>

definition plain_state ::
  "int \<Rightarrow> bool \<Rightarrow> bool \<Rightarrow> bool \<Rightarrow> int \<Rightarrow> int \<Rightarrow> int \<Rightarrow> int \<Rightarrow> game_state" where
  "plain_state sc l r u mv st x y =
     \<lparr>score = sc, left = l, right = r, up = u, down = False,
      move = mv, stand = st, meteoroid_speed = 4, meteoroid_timer = 1500,
      timer_period = 1500, previous_time = 0, player = Rect x y 118 75,
      bullet_group = [], meteoroid_group = [], meteoroid_group_exploded = [],
      next_id = 0\<rparr>"

definition hard_state :: "int \<Rightarrow> int \<Rightarrow> rat \<Rightarrow> int \<Rightarrow> game_state" where
  "hard_state sc st v tm =
     (plain_state sc False False False 0 st 100 360)
       \<lparr>meteoroid_speed := v, meteoroid_timer := tm, timer_period := tm\<rparr>"

text \<open>
  A run of 114 frames. In the first frame the spawn timer has fired twice (the queue
  holds both events when the loop was held up for longer than the spawn interval) and
  the draws are 390 and 380.25, so the two meteoroids overlap; the player shoots
  in the first and in the second frame and does not move. After 114 frames the first
  bullet has reached both meteoroids and the second is 5 pixels behind, short of them.
  The states below are the ones of the frames that follow with no input; \<open>demo_hit_114\<close>
  and \<open>demo_hit_115\<close> are the states in which line 878 runs in frames 115 and 116.
\<close>

definition demo_inputs :: "frame_input list" where
  "demo_inputs =
     \<lparr>events = [METEOROID_TIMER 390, METEOROID_TIMER (1521 / 4)],
      key = idle_keys\<lparr>K_SPACE := True\<rparr>, ticks = 501\<rparr>
     # \<lparr>events = [], key = idle_keys\<lparr>K_SPACE := True\<rparr>, ticks = 1002\<rparr>
     # replicate 112 idle_input"

definition demo_m0 :: meteoroid where
  "demo_m0 = \<lparr>m_id = 0, m_rect = Rect 824 390 38 33, m_state = 0\<rparr>"

definition demo_m1 :: meteoroid where
  "demo_m1 = \<lparr>m_id = 1, m_rect = Rect 824 380 38 33, m_state = 0\<rparr>"

definition demo_state :: "int \<Rightarrow> int \<Rightarrow> rect list \<Rightarrow> meteoroid list \<Rightarrow> meteoroid list \<Rightarrow> game_state" where
  "demo_state sc st bs alive exploded =
     \<lparr>score = sc, left = False, right = False, up = False, down = False,
      move = 0, stand = st, meteoroid_speed = 4, meteoroid_timer = 1500,
      timer_period = 1500, previous_time = 1002, player = Rect 100 360 118 75,
      bullet_group = bs, meteoroid_group = alive, meteoroid_group_exploded = exploded,
      next_id = 2\<rparr>"

definition demo_114 :: game_state where
  "demo_114 = demo_state 114 3 [Rect 810 390 15 12, Rect 805 390 15 12] [demo_m0, demo_m1] []"

definition demo_115 :: game_state where
  "demo_115 = demo_state 215 1 [Rect 810 390 15 12]
                [demo_m1\<lparr>m_rect := Rect 820 380 38 33\<rparr>]
                [demo_m0\<lparr>m_rect := Rect 820 390 38 33, m_state := 2\<rparr>]"

definition demo_116 :: game_state where
  "demo_116 = demo_state 316 2 [] []
                [demo_m0\<lparr>m_rect := Rect 816 390 38 33, m_state := 3\<rparr>,
                 demo_m1\<lparr>m_rect := Rect 816 380 38 33, m_state := 2\<rparr>]"

definition demo_117 :: game_state where
  "demo_117 = demo_state 317 3 [] []
                [demo_m1\<lparr>m_rect := Rect 812 380 38 33, m_state := 3\<rparr>]"

definition demo_hit_114 :: game_state where
  "demo_hit_114 = Player_update (begin_frame demo_114)"

definition demo_hit_115 :: game_state where
  "demo_hit_115 = Player_update (begin_frame demo_115)"

section \<open>Properties of the steps of a frame\<close>

lemma filter_none_keeps_all: "filter P g = [] \<Longrightarrow> filter (\<lambda>x. \<not> P x) g = g"
  by (induction g) (auto split: if_splits)

lemma spritecollide_nohit:
  "fst (spritecollide r f g) = [] \<Longrightarrow> snd (spritecollide r f g) = g"
  by (simp add: spritecollide_def filter_none_keeps_all)

text \<open>What a frame that keeps running has done.\<close>

lemma play_frame_Running:
  assumes "play_frame n c s inp = Running s'"
  obtains s1 s2 alive exploded where
    "read_input s inp = Some s1"
    "\<not> K_ESCAPE (key inp)"
    "fst (spritecollide (player s1) m_rect (meteoroid_group s1)) = []"
    "s2 = prune (resolve_hits (Player_update s1))"
    "group_update n c (meteoroid_speed s2) (meteoroid_group s2) = Inr alive"
    "group_update n c (meteoroid_speed s2) (meteoroid_group_exploded s2) = Inr exploded"
    "s' = s2\<lparr>meteoroid_group := alive, meteoroid_group_exploded := exploded,
             bullet_group := map (Bullet_update 5) (bullet_group s2)\<rparr>"
proof -
  from assms obtain s1 where r: "read_input s inp = Some s1"
    and f: "finish_frame n c (key inp) s1 = Running s'"
    by (auto simp: play_frame_def split: option.splits)
  from f have esc: "\<not> K_ESCAPE (key inp)"
    by (auto simp: finish_frame_def split: if_splits)
  have pu: "player (Player_update s1) = player s1" "meteoroid_group (Player_update s1) = meteoroid_group s1"
    by (simp_all add: Player_update_def Let_def)
  from f esc have nohit: "fst (spritecollide (player s1) m_rect (meteoroid_group s1)) = []"
    by (auto simp: finish_frame_def Let_def pu split: if_splits prod.splits)
  then have same: "snd (spritecollide (player s1) m_rect (meteoroid_group s1)) = meteoroid_group s1"
    by (rule spritecollide_nohit)
  have idem: "(Player_update s1)\<lparr>meteoroid_group := meteoroid_group s1\<rparr> = Player_update s1"
    by (simp add: pu(2)[symmetric])
  from f esc nohit same
  have u: "update_groups n c (prune (resolve_hits (Player_update s1))) = Running s'"
    by (auto simp: finish_frame_def Let_def pu idem split: if_splits prod.splits)
  then show thesis
    using r esc nohit that
    by (auto simp: update_groups_def split: sum.splits)
qed

subsection \<open>What each step of the frame leaves alone\<close>

lemma begin_frame_fields:
  "score (begin_frame s) = score s + 1"
  "player (begin_frame s) = player s"
  "bullet_group (begin_frame s) = bullet_group s"
  "meteoroid_group (begin_frame s) = meteoroid_group s"
  "meteoroid_group_exploded (begin_frame s) = meteoroid_group_exploded s"
  "next_id (begin_frame s) = next_id s"
  "meteoroid_speed (begin_frame s) = meteoroid_speed s"
  "meteoroid_timer (begin_frame s) = meteoroid_timer s"
  "timer_period (begin_frame s) = timer_period s"
  "previous_time (begin_frame s) = previous_time s"
  "\<not> left (begin_frame s)" "\<not> right (begin_frame s)"
  "\<not> up (begin_frame s)" "\<not> down (begin_frame s)"
  by (simp_all add: begin_frame_def)

lemma handle_events_fields:
  assumes "handle_events s es = Some s'"
  shows "score s' = score s" "player s' = player s" "bullet_group s' = bullet_group s"
    "meteoroid_group_exploded s' = meteoroid_group_exploded s"
    "previous_time s' = previous_time s"
    "left s' = left s" "right s' = right s" "up s' = up s" "down s' = down s"
  using assms
  by (induction s es rule: handle_events.induct)
     (simp_all add: spawn_def difficulty_increase_def Let_def)

lemma key_a_fields:
  "rect_x (player (key_a s)) = (if rect_x (player s) \<ge> 0 then rect_x (player s) - player_speed else rect_x (player s))"
  "rect_y (player (key_a s)) = rect_y (player s)"
  "left (key_a s)" "\<not> right (key_a s)" "\<not> up (key_a s)" "\<not> down (key_a s)"
  by (simp_all add: key_a_def set_flags_def move_x_def Let_def)

lemma key_d_fields:
  "rect_x (player (key_d s)) = (if rect_x (player s) \<le> windowwidth - 50 then rect_x (player s) + player_speed else rect_x (player s))"
  "rect_y (player (key_d s)) = rect_y (player s)"
  "\<not> left (key_d s)" "right (key_d s)" "\<not> up (key_d s)" "\<not> down (key_d s)"
  by (simp_all add: key_d_def set_flags_def move_x_def Let_def)

lemma key_w_fields:
  "rect_y (player (key_w s)) = (if rect_y (player s) \<ge> 0 then rect_y (player s) - player_speed else rect_y (player s))"
  "rect_x (player (key_w s)) = rect_x (player s)"
  "\<not> left (key_w s)" "\<not> right (key_w s)" "up (key_w s)" "\<not> down (key_w s)"
  by (simp_all add: key_w_def set_flags_def move_y_def Let_def)

lemma key_s_fields:
  "rect_y (player (key_s s)) = (if rect_y (player s) \<le> windowheight - 50 then rect_y (player s) + player_speed else rect_y (player s))"
  "rect_x (player (key_s s)) = rect_x (player s)"
  "\<not> left (key_s s)" "\<not> right (key_s s)" "\<not> up (key_s s)" "down (key_s s)"
  by (simp_all add: key_s_def set_flags_def move_y_def Let_def)

lemma key_other_fields:
  "score (key_a s) = score s" "score (key_d s) = score s"
  "score (key_w s) = score s" "score (key_s s) = score s"
  "bullet_group (key_a s) = bullet_group s" "bullet_group (key_d s) = bullet_group s"
  "bullet_group (key_w s) = bullet_group s" "bullet_group (key_s s) = bullet_group s"
  "meteoroid_group (key_a s) = meteoroid_group s" "meteoroid_group (key_d s) = meteoroid_group s"
  "meteoroid_group (key_w s) = meteoroid_group s" "meteoroid_group (key_s s) = meteoroid_group s"
  "meteoroid_group_exploded (key_a s) = meteoroid_group_exploded s"
  "meteoroid_group_exploded (key_d s) = meteoroid_group_exploded s"
  "meteoroid_group_exploded (key_w s) = meteoroid_group_exploded s"
  "meteoroid_group_exploded (key_s s) = meteoroid_group_exploded s"
  "next_id (key_a s) = next_id s" "next_id (key_d s) = next_id s"
  "next_id (key_w s) = next_id s" "next_id (key_s s) = next_id s"
  "meteoroid_speed (key_a s) = meteoroid_speed s" "meteoroid_speed (key_d s) = meteoroid_speed s"
  "meteoroid_speed (key_w s) = meteoroid_speed s" "meteoroid_speed (key_s s) = meteoroid_speed s"
  "meteoroid_timer (key_a s) = meteoroid_timer s" "meteoroid_timer (key_d s) = meteoroid_timer s"
  "meteoroid_timer (key_w s) = meteoroid_timer s" "meteoroid_timer (key_s s) = meteoroid_timer s"
  "timer_period (key_a s) = timer_period s" "timer_period (key_d s) = timer_period s"
  "timer_period (key_w s) = timer_period s" "timer_period (key_s s) = timer_period s"
  "previous_time (key_a s) = previous_time s" "previous_time (key_d s) = previous_time s"
  "previous_time (key_w s) = previous_time s" "previous_time (key_s s) = previous_time s"
  by (simp_all add: key_a_def key_d_def key_w_def key_s_def set_flags_def move_x_def
        move_y_def Let_def)

lemma handle_keys_fields:
  "score (handle_keys k s) = score s"
  "bullet_group (handle_keys k s) = bullet_group s"
  "meteoroid_group (handle_keys k s) = meteoroid_group s"
  "meteoroid_group_exploded (handle_keys k s) = meteoroid_group_exploded s"
  "next_id (handle_keys k s) = next_id s"
  "meteoroid_speed (handle_keys k s) = meteoroid_speed s"
  "meteoroid_timer (handle_keys k s) = meteoroid_timer s"
  "timer_period (handle_keys k s) = timer_period s"
  "previous_time (handle_keys k s) = previous_time s"
  by (simp_all add: handle_keys_def Let_def key_other_fields)

text \<open>The position after the four key tests, axis by axis.\<close>

lemma handle_keys_x:
  "rect_x (player (handle_keys k s)) =
     (let x = rect_x (player s);
          x1 = (if K_a k \<and> x \<ge> 0 then x - player_speed else x)
      in if K_d k \<and> x1 \<le> windowwidth - 50 then x1 + player_speed else x1)"
  by (simp add: handle_keys_def Let_def key_a_fields key_d_fields key_w_fields key_s_fields)

lemma handle_keys_y:
  "rect_y (player (handle_keys k s)) =
     (let y = rect_y (player s);
          y1 = (if K_w k \<and> y \<ge> 0 then y - player_speed else y)
      in if K_s k \<and> y1 \<le> windowheight - 50 then y1 + player_speed else y1)"
  by (simp add: handle_keys_def Let_def key_a_fields key_d_fields key_w_fields key_s_fields)

lemma handle_keys_flags:
  "left (handle_keys k s) = (if K_s k \<or> K_w k \<or> K_d k then False else if K_a k then True else left s)"
  "right (handle_keys k s) = (if K_s k \<or> K_w k then False else if K_d k then True else if K_a k then False else right s)"
  "up (handle_keys k s) = (if K_s k then False else if K_w k then True else if K_d k \<or> K_a k then False else up s)"
  "down (handle_keys k s) = (if K_s k then True else if K_w k \<or> K_d k \<or> K_a k then False else down s)"
  by (simp_all add: handle_keys_def Let_def key_a_fields key_d_fields key_w_fields key_s_fields)

lemma handle_space_fields:
  "score (handle_space k t s) = score s"
  "player (handle_space k t s) = player s"
  "meteoroid_group (handle_space k t s) = meteoroid_group s"
  "meteoroid_group_exploded (handle_space k t s) = meteoroid_group_exploded s"
  "next_id (handle_space k t s) = next_id s"
  "meteoroid_speed (handle_space k t s) = meteoroid_speed s"
  "meteoroid_timer (handle_space k t s) = meteoroid_timer s"
  "timer_period (handle_space k t s) = timer_period s"
  "left (handle_space k t s) = left s" "right (handle_space k t s) = right s"
  "up (handle_space k t s) = up s" "down (handle_space k t s) = down s"
  by (simp_all add: handle_space_def)

lemma Player_update_fields:
  "score (Player_update s) = score s"
  "player (Player_update s) = player s"
  "bullet_group (Player_update s) = bullet_group s"
  "meteoroid_group (Player_update s) = meteoroid_group s"
  "meteoroid_group_exploded (Player_update s) = meteoroid_group_exploded s"
  "next_id (Player_update s) = next_id s"
  "meteoroid_speed (Player_update s) = meteoroid_speed s"
  "meteoroid_timer (Player_update s) = meteoroid_timer s"
  "timer_period (Player_update s) = timer_period s"
  "previous_time (Player_update s) = previous_time s"
  "left (Player_update s) = left s" "right (Player_update s) = right s"
  "up (Player_update s) = up s" "down (Player_update s) = down s"
  by (simp_all add: Player_update_def Let_def)

lemma hit_loop_fields:
  "player (hit_loop hit s) = player s"
  "bullet_group (hit_loop hit s) = bullet_group s"
  "next_id (hit_loop hit s) = next_id s"
  "meteoroid_speed (hit_loop hit s) = meteoroid_speed s"
  "meteoroid_timer (hit_loop hit s) = meteoroid_timer s"
  "timer_period (hit_loop hit s) = timer_period s"
  "previous_time (hit_loop hit s) = previous_time s"
  "left (hit_loop hit s) = left s" "right (hit_loop hit s) = right s"
  "up (hit_loop hit s) = up s" "down (hit_loop hit s) = down s"
  by (induction hit arbitrary: s; simp)+

lemma hit_loop_score: "score (hit_loop hit s) = score s + 100 * int (length hit)"
  by (induction hit arbitrary: s) simp_all

lemma resolve_hits_fields:
  "player (resolve_hits s) = player s"
  "next_id (resolve_hits s) = next_id s"
  "meteoroid_speed (resolve_hits s) = meteoroid_speed s"
  "meteoroid_timer (resolve_hits s) = meteoroid_timer s"
  "timer_period (resolve_hits s) = timer_period s"
  "previous_time (resolve_hits s) = previous_time s"
  "left (resolve_hits s) = left s" "right (resolve_hits s) = right s"
  "up (resolve_hits s) = up s" "down (resolve_hits s) = down s"
  by (simp_all add: resolve_hits_def hit_loop_fields split: prod.splits)

lemma resolve_hits_score:
  "score (resolve_hits s) =
     score s + 100 * int (length (fst (groupcollide (meteoroid_group s) (bullet_group s))))"
  by (simp add: resolve_hits_def hit_loop_score split: prod.splits)

lemma prune_fields:
  "score (prune s) = score s"
  "player (prune s) = player s"
  "meteoroid_group_exploded (prune s) = meteoroid_group_exploded s"
  "next_id (prune s) = next_id s"
  "meteoroid_speed (prune s) = meteoroid_speed s"
  "meteoroid_timer (prune s) = meteoroid_timer s"
  "timer_period (prune s) = timer_period s"
  "previous_time (prune s) = previous_time s"
  "left (prune s) = left s" "right (prune s) = right s"
  "up (prune s) = up s" "down (prune s) = down s"
  by (simp_all add: prune_def)

subsection \<open>The input phase\<close>

lemma read_input_fields:
  assumes "read_input s inp = Some s1"
  shows "score s1 = score s + 1"
    and "player s1 = player (handle_keys (key inp) s)"
    and "meteoroid_group_exploded s1 = meteoroid_group_exploded s"
    and "left s1 = left (handle_keys (key inp) (begin_frame s))"
    and "right s1 = right (handle_keys (key inp) (begin_frame s))"
    and "up s1 = up (handle_keys (key inp) (begin_frame s))"
    and "down s1 = down (handle_keys (key inp) (begin_frame s))"
proof -
  from assms obtain se where e: "handle_events (begin_frame s) (events inp) = Some se"
    and s1: "s1 = handle_space (key inp) (ticks inp) (handle_keys (key inp) se)"
    by (auto simp: read_input_def split: option.splits)
  note ev = handle_events_fields[OF e]
  show "score s1 = score s + 1"
    by (simp add: s1 handle_space_fields handle_keys_fields ev begin_frame_fields)
  have "rect_x (player (handle_keys (key inp) se)) = rect_x (player (handle_keys (key inp) s))"
       "rect_y (player (handle_keys (key inp) se)) = rect_y (player (handle_keys (key inp) s))"
       "rect_w (player (handle_keys (key inp) se)) = rect_w (player (handle_keys (key inp) s))"
       "rect_h (player (handle_keys (key inp) se)) = rect_h (player (handle_keys (key inp) s))"
    by (simp_all add: handle_keys_def key_a_def key_d_def key_w_def key_s_def set_flags_def
          move_x_def move_y_def Let_def ev begin_frame_fields)
  then have "player (handle_keys (key inp) se) = player (handle_keys (key inp) s)"
    by (simp add: rect.equality)
  then show "player s1 = player (handle_keys (key inp) s)"
    by (simp add: s1 handle_space_fields)
  show "meteoroid_group_exploded s1 = meteoroid_group_exploded s"
    by (simp add: s1 handle_space_fields handle_keys_fields ev begin_frame_fields)
  show "left s1 = left (handle_keys (key inp) (begin_frame s))"
       "right s1 = right (handle_keys (key inp) (begin_frame s))"
       "up s1 = up (handle_keys (key inp) (begin_frame s))"
       "down s1 = down (handle_keys (key inp) (begin_frame s))"
    by (simp_all add: s1 handle_space_fields handle_keys_flags ev)
qed

text \<open>The clock and the bullets after the input phase.\<close>

lemma read_input_shot:
  assumes "read_input s inp = Some s1"
  shows "previous_time s1 =
           (if K_SPACE (key inp) \<and> ticks inp - previous_time s > 500
            then ticks inp else previous_time s)"
    and "bullet_group s1 =
           (if K_SPACE (key inp) \<and> ticks inp - previous_time s > 500
            then bullet_group s @ [Bullet (rect_x (player s1)) (rect_y (player s1))]
            else bullet_group s)"
proof -
  from assms obtain se where e: "handle_events (begin_frame s) (events inp) = Some se"
    and s1: "s1 = handle_space (key inp) (ticks inp) (handle_keys (key inp) se)"
    by (auto simp: read_input_def split: option.splits)
  note ev = handle_events_fields[OF e]
  show "previous_time s1 =
           (if K_SPACE (key inp) \<and> ticks inp - previous_time s > 500
            then ticks inp else previous_time s)"
    by (simp add: s1 handle_space_def handle_keys_fields ev begin_frame_fields)
  show "bullet_group s1 =
           (if K_SPACE (key inp) \<and> ticks inp - previous_time s > 500
            then bullet_group s @ [Bullet (rect_x (player s1)) (rect_y (player s1))]
            else bullet_group s)"
    by (simp add: s1 handle_space_def handle_keys_fields ev begin_frame_fields Player_shoot_def)
qed

subsection \<open>The difficulty\<close>

lemma difficulty_increase_timer:
  assumes "timer_ok s"
  shows "timer_ok (difficulty_increase s)"
    and "meteoroid_timer (difficulty_increase s) = max 200 (meteoroid_timer s - 100)"
    and "meteoroid_speed (difficulty_increase s) = meteoroid_speed s + 1 / 4"
proof -
  from assms obtain j where j: "meteoroid_timer s = 100 * j" and j2: "2 \<le> j"
    by (auto simp: timer_ok_def dvd_def)
  show "meteoroid_timer (difficulty_increase s) = max 200 (meteoroid_timer s - 100)"
    using j j2 by (simp add: difficulty_increase_def Let_def)
  show "meteoroid_speed (difficulty_increase s) = meteoroid_speed s + 1 / 4"
    by (simp add: difficulty_increase_def Let_def)
  have "100 dvd (100 * j - 100)" by (simp add: dvd_def) (metis mult.commute right_diff_distrib' mult.right_neutral)
  then show "timer_ok (difficulty_increase s)"
    using assms j j2 by (auto simp: timer_ok_def difficulty_increase_def Let_def)
qed

lemma spawn_timer:
  "timer_ok (spawn y s) = timer_ok s"
  "meteoroid_timer (spawn y s) = meteoroid_timer s"
  "meteoroid_speed (spawn y s) = meteoroid_speed s"
  by (simp_all add: spawn_def timer_ok_def)

lemma handle_events_difficulty:
  assumes "handle_events s es = Some s'" and "timer_ok s"
  shows "timer_ok s' \<and> meteoroid_timer s' = max 200 (meteoroid_timer s - 100 * int (escalations es))
         \<and> meteoroid_speed s' = meteoroid_speed s + of_nat (escalations es) / 4"
  using assms
proof (induction s es rule: handle_events.induct)
  case (1 s)
  then show ?case by (simp add: escalations_def timer_ok_def)
next
  case (2 s y es)
  then show ?case by (simp add: escalations_def spawn_timer)
next
  case (3 s es)
  from "3.prems" have h: "handle_events (difficulty_increase s) es = Some s'" by simp
  note d = difficulty_increase_timer[OF "3.prems"(2)]
  from "3.IH"[OF h d(1)] have ih: "timer_ok s'"
    "meteoroid_timer s' = max 200 (meteoroid_timer (difficulty_increase s) - 100 * int (escalations es))"
    "meteoroid_speed s' = meteoroid_speed (difficulty_increase s) + of_nat (escalations es) / 4"
    by simp_all
  have e: "escalations (DIFFICULTY_INCREASE # es) = Suc (escalations es)"
    by (simp add: escalations_def)
  show ?case
    using ih by (auto simp: d e field_simps)
next
  case (4 s es)
  then show ?case by simp
next
  case (5 s es)
  then show ?case by (simp add: escalations_def)
qed

subsection \<open>A whole frame, away from the sprite groups\<close>

lemma play_frame_fields:
  assumes "play_frame n c s inp = Running s'"
  shows "\<exists>s1. read_input s inp = Some s1
           \<and> score s' = score s1 + 100 * int (length (fst (groupcollide (meteoroid_group s1) (bullet_group s1))))
           \<and> player s' = player s1 \<and> previous_time s' = previous_time s1
           \<and> meteoroid_speed s' = meteoroid_speed s1 \<and> meteoroid_timer s' = meteoroid_timer s1
           \<and> timer_period s' = timer_period s1 \<and> next_id s' = next_id s1
           \<and> left s' = left s1 \<and> right s' = right s1 \<and> up s' = up s1 \<and> down s' = down s1"
  using assms
proof (rule play_frame_Running)
  fix s1 s2 alive exploded
  assume r: "read_input s inp = Some s1"
    and s2: "s2 = prune (resolve_hits (Player_update s1))"
    and s': "s' = s2\<lparr>meteoroid_group := alive, meteoroid_group_exploded := exploded,
                   bullet_group := map (Bullet_update 5) (bullet_group s2)\<rparr>"
  have "score s' = score s1 + 100 * int (length (fst (groupcollide (meteoroid_group s1) (bullet_group s1))))"
    by (simp add: s' s2 prune_fields resolve_hits_score Player_update_fields)
  moreover have "player s' = player s1" "previous_time s' = previous_time s1"
    "meteoroid_speed s' = meteoroid_speed s1" "meteoroid_timer s' = meteoroid_timer s1"
    "timer_period s' = timer_period s1" "next_id s' = next_id s1"
    "left s' = left s1" "right s' = right s1" "up s' = up s1" "down s' = down s1"
    by (simp_all add: s' s2 prune_fields resolve_hits_fields Player_update_fields)
  ultimately show ?thesis using r by simp
qed

lemma play_frame_player:
  assumes "play_frame n c s inp = Running s'"
  shows "player s' = player (handle_keys (key inp) s)"
  using play_frame_fields[OF assms] by (auto simp: read_input_fields)

lemma play_frame_score_ge:
  assumes "play_frame n c s inp = Running s'"
  shows "score s < score s'"
  using play_frame_fields[OF assms] by (auto simp: read_input_fields)

lemma play_frame_GameOver:
  assumes "play_frame n c s inp = GameOver sc"
  shows "sc = score s + 1"
proof -
  from assms obtain s1 where r: "read_input s inp = Some s1"
    and f: "finish_frame n c (key inp) s1 = GameOver sc"
    by (auto simp: play_frame_def split: option.splits)
  have "update_groups n c t \<noteq> GameOver sc" for t
    by (simp add: update_groups_def split: sum.splits)
  with f have "sc = score s1"
    by (auto simp: finish_frame_def Let_def Player_update_fields split: if_splits prod.splits)
  then show ?thesis by (simp add: read_input_fields[OF r])
qed

subsection \<open>The player stays near the window\<close>

lemma key_a_player_ok:
  assumes "player_ok (player s)"
  shows "player_ok (player (key_a s))"
proof (cases "0 \<le> rect_x (player s)")
  case True
  then have "rect_x (player (key_a s)) = rect_x (player s) - 3"
    by (simp add: key_a_fields player_speed_def)
  with True assms show ?thesis
    unfolding player_ok_def key_a_fields(2) by presburger
next
  case False
  then have "rect_x (player (key_a s)) = rect_x (player s)"
    by (simp add: key_a_fields)
  with assms show ?thesis
    by (simp add: player_ok_def key_a_fields(2))
qed

lemma key_d_player_ok:
  assumes "player_ok (player s)"
  shows "player_ok (player (key_d s))"
proof (cases "rect_x (player s) \<le> 1230")
  case True
  then have "rect_x (player (key_d s)) = rect_x (player s) + 3"
    by (simp add: key_d_fields player_speed_def windowwidth_def)
  with True assms show ?thesis
    unfolding player_ok_def key_d_fields(2) by presburger
next
  case False
  then have "rect_x (player (key_d s)) = rect_x (player s)"
    by (simp add: key_d_fields windowwidth_def)
  with assms show ?thesis
    by (simp add: player_ok_def key_d_fields(2))
qed

lemma key_w_player_ok:
  assumes "player_ok (player s)"
  shows "player_ok (player (key_w s))"
proof (cases "0 \<le> rect_y (player s)")
  case True
  then have "rect_y (player (key_w s)) = rect_y (player s) - 3"
    by (simp add: key_w_fields player_speed_def)
  with True assms show ?thesis
    unfolding player_ok_def key_w_fields(2) by presburger
next
  case False
  then have "rect_y (player (key_w s)) = rect_y (player s)"
    by (simp add: key_w_fields)
  with assms show ?thesis
    by (simp add: player_ok_def key_w_fields(2))
qed

lemma key_s_player_ok:
  assumes "player_ok (player s)"
  shows "player_ok (player (key_s s))"
proof (cases "rect_y (player s) \<le> 670")
  case True
  then have "rect_y (player (key_s s)) = rect_y (player s) + 3"
    by (simp add: key_s_fields player_speed_def windowheight_def)
  with True assms show ?thesis
    unfolding player_ok_def key_s_fields(2) by presburger
next
  case False
  then have "rect_y (player (key_s s)) = rect_y (player s)"
    by (simp add: key_s_fields windowheight_def)
  with assms show ?thesis
    by (simp add: player_ok_def key_s_fields(2))
qed

lemma handle_keys_player_ok:
  assumes "player_ok (player s)"
  shows "player_ok (player (handle_keys k s))"
  using assms
  by (simp add: handle_keys_def Let_def key_a_player_ok key_d_player_ok key_w_player_ok
        key_s_player_ok)

lemma play_init_player_ok: "player_ok (player (play_init t0))"
  by (simp add: play_init_def Player_def Rect_def player_ok_def trunc_def windowheight_def)

lemma play_loop_player_ok:
  assumes "play_loop n c s inps = Running s'" and "player_ok (player s)"
  shows "player_ok (player s')"
  using assms
proof (induction inps arbitrary: s)
  case Nil
  then show ?case by simp
next
  case (Cons inp inps)
  from Cons.prems(1) obtain t where t: "play_frame n c s inp = Running t"
    and l: "play_loop n c t inps = Running s'"
    by (auto split: outcome.splits)
  have "player_ok (player t)"
    by (simp add: play_frame_player[OF t] handle_keys_player_ok Cons.prems(2))
  with Cons.IH l show ?case by blast
qed

subsection \<open>Difficulty over a run\<close>

lemma read_input_difficulty:
  assumes "read_input s inp = Some s1" and "timer_ok s"
  shows "timer_ok s1 \<and> meteoroid_timer s1 = max 200 (meteoroid_timer s - 100 * int (escalations (events inp)))
         \<and> meteoroid_speed s1 = meteoroid_speed s + of_nat (escalations (events inp)) / 4"
proof -
  from assms obtain se where e: "handle_events (begin_frame s) (events inp) = Some se"
    and s1: "s1 = handle_space (key inp) (ticks inp) (handle_keys (key inp) se)"
    by (auto simp: read_input_def split: option.splits)
  have "timer_ok (begin_frame s)"
    using assms(2) by (simp add: timer_ok_def begin_frame_fields)
  from handle_events_difficulty[OF e this]
  have ok: "timer_ok se"
    and t: "meteoroid_timer se = max 200 (meteoroid_timer (begin_frame s) - 100 * int (escalations (events inp)))"
    and v: "meteoroid_speed se = meteoroid_speed (begin_frame s) + of_nat (escalations (events inp)) / 4"
    by simp_all
  have f: "meteoroid_timer s1 = meteoroid_timer se" "meteoroid_speed s1 = meteoroid_speed se"
    "timer_period s1 = timer_period se"
    by (simp_all add: s1 handle_space_fields handle_keys_fields)
  have "timer_ok s1"
    using ok unfolding timer_ok_def f .
  then show ?thesis
    by (simp add: f t v begin_frame_fields)
qed

lemma play_frame_difficulty:
  assumes "play_frame n c s inp = Running s'" and "timer_ok s"
  shows "timer_ok s' \<and> meteoroid_timer s' = max 200 (meteoroid_timer s - 100 * int (escalations (events inp)))
         \<and> meteoroid_speed s' = meteoroid_speed s + of_nat (escalations (events inp)) / 4"
proof -
  from play_frame_fields[OF assms(1)] obtain s1 where r: "read_input s inp = Some s1"
    and eq: "meteoroid_speed s' = meteoroid_speed s1" "meteoroid_timer s' = meteoroid_timer s1"
      "timer_period s' = timer_period s1"
    by blast
  from read_input_difficulty[OF r assms(2)]
  have ok: "timer_ok s1"
    and t: "meteoroid_timer s1 = max 200 (meteoroid_timer s - 100 * int (escalations (events inp)))"
    and v: "meteoroid_speed s1 = meteoroid_speed s + of_nat (escalations (events inp)) / 4"
    by simp_all
  have "timer_ok s'"
    using ok unfolding timer_ok_def eq .
  then show ?thesis
    by (simp add: eq t v)
qed

lemma fires_Cons: "fires (inp # inps) = escalations (events inp) + fires inps"
  by (simp add: fires_def escalations_def)

lemma play_loop_difficulty:
  assumes "play_loop n c s inps = Running s'" and "timer_ok s"
  shows "timer_ok s' \<and> meteoroid_timer s' = max 200 (meteoroid_timer s - 100 * int (fires inps))
         \<and> meteoroid_speed s' = meteoroid_speed s + of_nat (fires inps) / 4"
  using assms
proof (induction inps arbitrary: s)
  case Nil
  then show ?case by (simp add: fires_def escalations_def timer_ok_def)
next
  case (Cons inp inps)
  from Cons.prems(1) obtain t where t: "play_frame n c s inp = Running t"
    and l: "play_loop n c t inps = Running s'"
    by (auto split: outcome.splits)
  note f = play_frame_difficulty[OF t Cons.prems(2)]
  from Cons.IH[OF l] f have ih: "timer_ok s'"
    "meteoroid_timer s' = max 200 (meteoroid_timer t - 100 * int (fires inps))"
    "meteoroid_speed s' = meteoroid_speed t + of_nat (fires inps) / 4"
    by simp_all
  show ?case
    using ih f by (auto simp: fires_Cons field_simps)
qed

lemma play_init_timer_ok: "timer_ok (play_init t0)"
  by (simp add: timer_ok_def play_init_def)

lemma play_loop_score:
  assumes "play_loop n c s inps = Running s'"
  shows "score s + int (length inps) \<le> score s'"
  using assms
proof (induction inps arbitrary: s)
  case Nil
  then show ?case by simp
next
  case (Cons inp inps)
  from Cons.prems(1) obtain t where t: "play_frame n c s inp = Running t"
    and l: "play_loop n c t inps = Running s'"
    by (auto split: outcome.splits)
  from play_frame_score_ge[OF t] Cons.IH[OF l] show ?case by simp
qed

subsection \<open>Collisions of the two groups\<close>

lemma first_overlap_Cons:
  "first_overlap (m # ms) b = (if colliderect (m_rect m) b then Some m else first_overlap ms b)"
  by (simp add: first_overlap_def)

lemma first_overlap_None:
  "first_overlap ms b = None \<longleftrightarrow> (\<forall>m\<in>set ms. \<not> colliderect (m_rect m) b)"
  by (auto simp: first_overlap_def find_None_iff)

lemma first_overlap_Some:
  "first_overlap ms b = Some m \<Longrightarrow> m \<in> set ms \<and> colliderect (m_rect m) b"
  by (auto simp: first_overlap_def find_Some_iff)

lemma groupcollide_bullets:
  "snd (groupcollide ms bs) = filter (\<lambda>b. first_overlap ms b = None) bs"
proof (induction ms arbitrary: bs)
  case Nil
  then show ?case by (simp add: first_overlap_def)
next
  case (Cons m ms)
  have "snd (groupcollide (m # ms) bs)
        = snd (groupcollide ms (filter (\<lambda>b. \<not> colliderect (m_rect m) b) bs))"
    by (simp add: spritecollide_def split: prod.splits)
  also have "\<dots> = filter (\<lambda>b. first_overlap ms b = None) (filter (\<lambda>b. \<not> colliderect (m_rect m) b) bs)"
    by (rule Cons.IH)
  also have "\<dots> = filter (\<lambda>b. first_overlap (m # ms) b = None) bs"
    by (auto simp: first_overlap_Cons intro: filter_cong)
  finally show ?case .
qed

lemma groupcollide_keys:
  assumes "distinct ms"
  shows "map fst (fst (groupcollide ms bs)) = filter (hit_by ms bs) ms"
  using assms
proof (induction ms arbitrary: bs)
  case Nil
  then show ?case by simp
next
  case (Cons m ms)
  let ?bs' = "filter (\<lambda>b. \<not> colliderect (m_rect m) b) bs"
  from Cons.prems have notin: "m \<notin> set ms" and d: "distinct ms" by simp_all
  have head: "hit_by (m # ms) bs m \<longleftrightarrow> filter (\<lambda>b. colliderect (m_rect m) b) bs \<noteq> []"
  proof
    assume "hit_by (m # ms) bs m"
    then obtain b where "b \<in> set bs" "first_overlap (m # ms) b = Some m"
      by (auto simp: hit_by_def)
    with notin have "colliderect (m_rect m) b"
      by (auto simp: first_overlap_Cons dest: first_overlap_Some split: if_splits)
    with \<open>b \<in> set bs\<close> show "filter (\<lambda>b. colliderect (m_rect m) b) bs \<noteq> []"
      by (auto simp: filter_empty_conv)
  next
    assume "filter (\<lambda>b. colliderect (m_rect m) b) bs \<noteq> []"
    then show "hit_by (m # ms) bs m"
      by (auto simp: hit_by_def first_overlap_Cons filter_empty_conv)
  qed
  have tail: "hit_by (m # ms) bs m' \<longleftrightarrow> hit_by ms ?bs' m'" if "m' \<in> set ms" for m'
  proof -
    from that notin have "m' \<noteq> m" by auto
    then show ?thesis
      by (auto simp: hit_by_def first_overlap_Cons split: if_splits)
  qed
  have "map fst (fst (groupcollide (m # ms) bs))
        = (if filter (\<lambda>b. colliderect (m_rect m) b) bs \<noteq> [] then [m] else [])
          @ map fst (fst (groupcollide ms ?bs'))"
    by (simp add: spritecollide_def split: prod.splits)
  also have "map fst (fst (groupcollide ms ?bs')) = filter (hit_by ms ?bs') ms"
    by (rule Cons.IH[OF d])
  also have "\<dots> = filter (hit_by (m # ms) bs) ms"
    using tail by (auto intro: filter_cong)
  finally show ?case
    using head by simp
qed

subsection \<open>The loop over the hit meteoroids\<close>

lemma ids_simps:
  "ids [] = {}" "ids (m # g) = insert (m_id m) (ids g)" "ids (g @ g') = ids g \<union> ids g'"
  by (auto simp: ids_def)

lemma hit_loop_alive:
  "meteoroid_group (hit_loop hit s) = filter (\<lambda>m. m_id m \<notin> ids hit) (meteoroid_group s)"
proof (induction hit arbitrary: s)
  case Nil
  then show ?case by (simp add: ids_simps)
next
  case (Cons h hit)
  show ?case
    by (auto simp: Cons.IH group_remove_def ids_simps intro: filter_cong)
qed

lemma hit_loop_exploded:
  assumes "distinct (map m_id hit)" and "ids hit \<inter> ids (meteoroid_group_exploded s) = {}"
  shows "meteoroid_group_exploded (hit_loop hit s) = meteoroid_group_exploded s @ map explode hit"
  using assms
proof (induction hit arbitrary: s)
  case Nil
  then show ?case by simp
next
  case (Cons h hit)
  let ?s = "s\<lparr>meteoroid_group := group_remove h (meteoroid_group s),
              meteoroid_group_exploded :=
                group_add (h\<lparr>m_state := m_state h + 1\<rparr>) (meteoroid_group_exploded s),
              score := score s + 100\<rparr>"
  from Cons.prems have fresh: "m_id h \<notin> ids (meteoroid_group_exploded s)"
    by (auto simp: ids_simps)
  then have e: "meteoroid_group_exploded ?s = meteoroid_group_exploded s @ [explode h]"
    by (simp add: group_add_def explode_def)
  from Cons.prems have "distinct (map m_id hit)"
    and "ids hit \<inter> ids (meteoroid_group_exploded ?s) = {}"
    by (auto simp: e ids_simps explode_def ids_def)
  from Cons.IH[OF this] show ?case
    by (simp add: e)
qed

lemma resolve_hits_unfold:
  "resolve_hits s =
     hit_loop (map fst (fst (groupcollide (meteoroid_group s) (bullet_group s))))
       (s\<lparr>bullet_group := snd (groupcollide (meteoroid_group s) (bullet_group s))\<rparr>)"
  by (simp add: resolve_hits_def split: prod.splits)

lemma resolve_hits_bullets:
  "bullet_group (resolve_hits s)
     = filter (\<lambda>b. first_overlap (meteoroid_group s) b = None) (bullet_group s)"
  by (simp add: resolve_hits_unfold hit_loop_fields groupcollide_bullets)

lemma resolve_hits_groups:
  assumes "distinct (map m_id (meteoroid_group s @ meteoroid_group_exploded s))"
  shows "meteoroid_group (resolve_hits s)
           = filter (\<lambda>m. \<not> hit_by (meteoroid_group s) (bullet_group s) m) (meteoroid_group s)"
    and "meteoroid_group_exploded (resolve_hits s)
           = meteoroid_group_exploded s
             @ map explode (filter (hit_by (meteoroid_group s) (bullet_group s)) (meteoroid_group s))"
    and "score (resolve_hits s)
           = score s + 100 * int (length (filter (hit_by (meteoroid_group s) (bullet_group s)) (meteoroid_group s)))"
proof -
  let ?H = "hit_by (meteoroid_group s) (bullet_group s)"
  let ?s = "s\<lparr>bullet_group := snd (groupcollide (meteoroid_group s) (bullet_group s))\<rparr>"
  from assms have da: "distinct (map m_id (meteoroid_group s))"
    and disj: "ids (meteoroid_group s) \<inter> ids (meteoroid_group_exploded s) = {}"
    by (auto simp: ids_def)
  from da have d: "distinct (meteoroid_group s)" and inj: "inj_on m_id (set (meteoroid_group s))"
    by (simp_all add: distinct_map)
  have keys: "map fst (fst (groupcollide (meteoroid_group s) (bullet_group s))) = filter ?H (meteoroid_group s)"
    by (rule groupcollide_keys[OF d])
  have "m_id m \<notin> ids (filter ?H (meteoroid_group s)) \<longleftrightarrow> \<not> ?H m" if "m \<in> set (meteoroid_group s)" for m
    using that inj by (auto simp: ids_def inj_on_def)
  then show "meteoroid_group (resolve_hits s) = filter (\<lambda>m. \<not> ?H m) (meteoroid_group s)"
    by (simp add: resolve_hits_unfold keys hit_loop_alive cong: filter_cong)
  have "distinct (map m_id (filter ?H (meteoroid_group s)))"
    using da by (simp add: distinct_map_filter)
  moreover have "ids (filter ?H (meteoroid_group s)) \<inter> ids (meteoroid_group_exploded ?s) = {}"
    using disj by (auto simp: ids_def)
  ultimately show "meteoroid_group_exploded (resolve_hits s)
           = meteoroid_group_exploded s @ map explode (filter ?H (meteoroid_group s))"
    by (simp add: resolve_hits_unfold keys hit_loop_exploded)
  show "score (resolve_hits s) = score s + 100 * int (length (filter ?H (meteoroid_group s)))"
    by (simp add: resolve_hits_unfold hit_loop_score) (simp add: keys[symmetric])
qed

subsection \<open>Updating a group of meteoroids\<close>

lemma Meteoroid_update_Inr:
  assumes "Meteoroid_update n c speed m = Inr (m', killed)"
  shows "killed = (m_state m + 1 = int n)" and "\<not> killed \<Longrightarrow> m' = moved c speed m"
  using assms
  by (auto simp: Meteoroid_update_def Let_def moved_def split: if_splits)

lemma group_update_Inr:
  assumes "group_update n c speed g = Inr g'"
  shows "g' = map (moved c speed) (filter (\<lambda>m. m_state m + 1 \<noteq> int n) g)"
  using assms
proof (induction g arbitrary: g')
  case Nil
  then show ?case by simp
next
  case (Cons m g)
  from Cons.prems obtain m' killed g1 where
    u: "Meteoroid_update n c speed m = Inr (m', killed)"
    and r: "group_update n c speed g = Inr g1"
    and g': "g' = (if killed then g1 else m' # g1)"
    by (auto split: sum.splits prod.splits)
  note k = Meteoroid_update_Inr[OF u]
  from Cons.IH[OF r] show ?case
    using k by (auto simp: g')
qed

lemma moved_fields:
  "m_id (moved c speed m) = m_id m"
  "m_state (moved c speed m) = (if m_state m > 0 then m_state m + 1 else m_state m)"
  by (simp_all add: moved_def)

lemma ids_filter_subset: "ids (filter P g) \<subseteq> ids g"
  by (auto simp: ids_def)

lemma ids_map_moved: "ids (map (moved c speed) g) = ids g"
  by (auto simp: ids_def moved_fields image_image)

lemma map_id_moved: "map m_id (map (moved c speed) g) = map m_id g"
  by (simp add: moved_fields)

subsection \<open>The invariant of the two meteoroid groups\<close>

lemma groups_ok_cong:
  assumes "meteoroid_group s' = meteoroid_group s"
    and "meteoroid_group_exploded s' = meteoroid_group_exploded s"
    and "next_id s' = next_id s"
  shows "groups_ok s' = groups_ok s"
  by (simp add: groups_ok_def assms)

lemma play_init_groups_ok: "groups_ok (play_init t0)"
  by (simp add: groups_ok_def play_init_def)

lemma spawn_groups_ok:
  assumes "groups_ok s"
  shows "groups_ok (spawn y s)"
proof -
  from assms have fresh: "next_id s \<notin> ids (meteoroid_group s)"
    "next_id s \<notin> ids (meteoroid_group_exploded s)"
    by (auto simp: groups_ok_def ids_def)
  then have a: "meteoroid_group (spawn y s) = meteoroid_group s @ [Meteoroid (next_id s) y]"
    by (simp add: spawn_def group_add_def Meteoroid_def)
  have e: "meteoroid_group_exploded (spawn y s) = meteoroid_group_exploded s"
    and i: "next_id (spawn y s) = Suc (next_id s)"
    by (simp_all add: spawn_def)
  have m: "m_id (Meteoroid (next_id s) y) = next_id s" "m_state (Meteoroid (next_id s) y) = 0"
    by (simp_all add: Meteoroid_def)
  show ?thesis
    using assms fresh unfolding groups_ok_def a e i
    by (auto simp: m ids_def less_Suc_eq)
qed

lemma difficulty_increase_groups:
  "meteoroid_group (difficulty_increase s) = meteoroid_group s"
  "meteoroid_group_exploded (difficulty_increase s) = meteoroid_group_exploded s"
  "next_id (difficulty_increase s) = next_id s"
  by (simp_all add: difficulty_increase_def Let_def)

lemma handle_events_groups_ok:
  assumes "handle_events s es = Some s'" and "groups_ok s"
  shows "groups_ok s'"
  using assms
proof (induction s es rule: handle_events.induct)
  case (2 s y es)
  then show ?case by (simp add: spawn_groups_ok)
next
  case (3 s es)
  then show ?case
    by (simp add: groups_ok_cong[OF difficulty_increase_groups])
qed simp_all

lemma spawn_alive_ids:
  "ids (meteoroid_group (spawn y s)) \<subseteq> insert (next_id s) (ids (meteoroid_group s))"
  "next_id (spawn y s) = Suc (next_id s)"
  by (auto simp: spawn_def group_add_def ids_def Meteoroid_def)

lemma handle_events_alive_ids:
  assumes "handle_events s es = Some s'"
  shows "next_id s \<le> next_id s' \<and> ids (meteoroid_group s') \<subseteq> ids (meteoroid_group s) \<union> {i. next_id s \<le> i}"
  using assms
proof (induction s es rule: handle_events.induct)
  case (2 s y es)
  from "2.prems" have "handle_events (spawn y s) es = Some s'" by simp
  from "2.IH"[OF this] spawn_alive_ids[of y s] show ?case
    by auto
next
  case (3 s es)
  then show ?case by (simp add: difficulty_increase_groups)
qed simp_all

lemma read_input_groups:
  assumes "read_input s inp = Some s1"
  shows "groups_ok s \<Longrightarrow> groups_ok s1"
    and "next_id s \<le> next_id s1"
    and "ids (meteoroid_group s1) \<subseteq> ids (meteoroid_group s) \<union> {i. next_id s \<le> i}"
proof -
  from assms obtain se where e: "handle_events (begin_frame s) (events inp) = Some se"
    and s1: "s1 = handle_space (key inp) (ticks inp) (handle_keys (key inp) se)"
    by (auto simp: read_input_def split: option.splits)
  have f: "meteoroid_group s1 = meteoroid_group se"
    "meteoroid_group_exploded s1 = meteoroid_group_exploded se" "next_id s1 = next_id se"
    by (simp_all add: s1 handle_space_fields handle_keys_fields)
  have b: "groups_ok (begin_frame s) = groups_ok s"
    by (rule groups_ok_cong) (simp_all add: begin_frame_fields)
  show "groups_ok s \<Longrightarrow> groups_ok s1"
    using handle_events_groups_ok[OF e] b groups_ok_cong[OF f] by simp
  from handle_events_alive_ids[OF e]
  show "next_id s \<le> next_id s1"
    and "ids (meteoroid_group s1) \<subseteq> ids (meteoroid_group s) \<union> {i. next_id s \<le> i}"
    by (simp_all add: f begin_frame_fields)
qed

lemma resolve_hits_groups_ok:
  assumes "groups_ok s"
  shows "groups_ok (resolve_hits s)"
proof -
  let ?H = "hit_by (meteoroid_group s) (bullet_group s)"
  from assms have d: "distinct (map m_id (meteoroid_group s @ meteoroid_group_exploded s))"
    by (simp add: groups_ok_def)
  note r = resolve_hits_groups[OF d]
  have split: "distinct (map m_id (filter (\<lambda>m. \<not> ?H m) g @ e @ map explode (filter ?H g)))"
    if "distinct (map m_id (g @ e))" for g e
    using that
  proof (induction g)
    case Nil
    then show ?case by simp
  next
    case (Cons m g)
    then show ?case
      by (auto simp: explode_def)
  qed
  have "distinct (map m_id (meteoroid_group (resolve_hits s) @ meteoroid_group_exploded (resolve_hits s)))"
    unfolding r using split[OF d] by simp
  moreover have "\<forall>m\<in>set (meteoroid_group (resolve_hits s)). m_state m = 0"
    using assms unfolding r by (auto simp: groups_ok_def)
  moreover have "\<forall>m\<in>set (meteoroid_group_exploded (resolve_hits s)). 1 \<le> m_state m"
    using assms unfolding r by (auto simp: groups_ok_def explode_def)
  moreover have "\<forall>m\<in>set (meteoroid_group (resolve_hits s) @ meteoroid_group_exploded (resolve_hits s)).
                   m_id m < next_id (resolve_hits s)"
    using assms unfolding r by (auto simp: groups_ok_def explode_def resolve_hits_fields)
  ultimately show ?thesis
    by (simp add: groups_ok_def)
qed

lemma prune_groups_ok:
  assumes "groups_ok s"
  shows "groups_ok (prune s)"
  using assms
  by (auto simp: groups_ok_def prune_def spritecollide_def distinct_map_filter)

lemma updated_groups_ok:
  assumes "groups_ok s"
    and "group_update n c speed (meteoroid_group s) = Inr alive"
    and "group_update n c speed (meteoroid_group_exploded s) = Inr exploded"
  shows "groups_ok (s\<lparr>meteoroid_group := alive, meteoroid_group_exploded := exploded,
                      bullet_group := bs\<rparr>)"
proof -
  note a = group_update_Inr[OF assms(2)] and e = group_update_Inr[OF assms(3)]
  have split: "distinct (map m_id (filter P g @ filter P e))" if "distinct (map m_id (g @ e))"
    for g e :: "meteoroid list" and P
    using that by (auto simp: distinct_map_filter)
  show ?thesis
    using assms(1) split[of "meteoroid_group s" "meteoroid_group_exploded s"]
    by (auto simp: groups_ok_def a e map_id_moved moved_fields simp del: map_map)
qed

lemma play_frame_groups_ok:
  assumes "play_frame n c s inp = Running s'" and "groups_ok s"
  shows "groups_ok s'"
  using assms(1)
proof (rule play_frame_Running)
  fix s1 s2 alive exploded
  assume r: "read_input s inp = Some s1"
    and s2: "s2 = prune (resolve_hits (Player_update s1))"
    and a: "group_update n c (meteoroid_speed s2) (meteoroid_group s2) = Inr alive"
    and e: "group_update n c (meteoroid_speed s2) (meteoroid_group_exploded s2) = Inr exploded"
    and s': "s' = s2\<lparr>meteoroid_group := alive, meteoroid_group_exploded := exploded,
                   bullet_group := map (Bullet_update 5) (bullet_group s2)\<rparr>"
  have "groups_ok s1" using read_input_groups(1)[OF r] assms(2) .
  then have "groups_ok (Player_update s1)"
    using groups_ok_cong[of "Player_update s1" s1] by (simp add: Player_update_fields)
  then have "groups_ok s2"
    unfolding s2 by (intro prune_groups_ok resolve_hits_groups_ok)
  from updated_groups_ok[OF this a e] show ?thesis
    by (simp add: s')
qed

lemma play_loop_groups_ok:
  assumes "play_loop n c s inps = Running s'" and "groups_ok s"
  shows "groups_ok s'"
  using assms
proof (induction inps arbitrary: s)
  case Nil
  then show ?case by simp
next
  case (Cons inp inps)
  from Cons.prems(1) obtain t where t: "play_frame n c s inp = Running t"
    and l: "play_loop n c t inps = Running s'"
    by (auto split: outcome.splits)
  from Cons.IH[OF l play_frame_groups_ok[OF t Cons.prems(2)]] show ?case .
qed

subsection \<open>A run in two parts\<close>

lemma play_loop_append:
  "play_loop n c s (xs @ ys) =
     (case play_loop n c s xs of
        Running s' \<Rightarrow> play_loop n c s' ys
      | GameOver sc \<Rightarrow> GameOver sc
      | Quit \<Rightarrow> Quit
      | Crash e \<Rightarrow> Crash e)"
  by (induction xs arbitrary: s) (auto split: outcome.splits)

subsection \<open>The groups after a frame\<close>

lemma play_frame_exploded:
  assumes "play_frame n c s inp = Running s'" and "groups_ok s"
  shows "\<exists>s1 hit. read_input s inp = Some s1
           \<and> distinct (map m_id (meteoroid_group_exploded s @ map explode hit))
           \<and> meteoroid_group_exploded s'
               = map (moved c (meteoroid_speed s1))
                   (filter (\<lambda>m. m_state m + 1 \<noteq> int n) (meteoroid_group_exploded s @ map explode hit))"
  using assms(1)
proof (rule play_frame_Running)
  fix s1 s2 alive exploded
  assume r: "read_input s inp = Some s1"
    and s2: "s2 = prune (resolve_hits (Player_update s1))"
    and e: "group_update n c (meteoroid_speed s2) (meteoroid_group_exploded s2) = Inr exploded"
    and s': "s' = s2\<lparr>meteoroid_group := alive, meteoroid_group_exploded := exploded,
                   bullet_group := map (Bullet_update 5) (bullet_group s2)\<rparr>"
  let ?hit = "filter (hit_by (meteoroid_group s1) (bullet_group s1)) (meteoroid_group s1)"
  have ok1: "groups_ok s1" using read_input_groups(1)[OF r] assms(2) .
  then have okp: "groups_ok (Player_update s1)"
    using groups_ok_cong[of "Player_update s1" s1] by (simp add: Player_update_fields)
  then have d: "distinct (map m_id (meteoroid_group (Player_update s1)
                   @ meteoroid_group_exploded (Player_update s1)))"
    by (simp add: groups_ok_def)
  have ex2: "meteoroid_group_exploded s2 = meteoroid_group_exploded s @ map explode ?hit"
    by (simp add: s2 prune_fields resolve_hits_groups(2)[OF d] Player_update_fields
          read_input_fields(3)[OF r])
  have v: "meteoroid_speed s2 = meteoroid_speed s1"
    by (simp add: s2 prune_fields resolve_hits_fields Player_update_fields)
  have "groups_ok (resolve_hits (Player_update s1))"
    using okp by (rule resolve_hits_groups_ok)
  then have "distinct (map m_id (meteoroid_group_exploded s @ map explode ?hit))"
    by (simp add: groups_ok_def resolve_hits_groups(2)[OF d] Player_update_fields
          read_input_fields(3)[OF r])
  moreover have "meteoroid_group_exploded s'
      = map (moved c (meteoroid_speed s1))
          (filter (\<lambda>m. m_state m + 1 \<noteq> int n) (meteoroid_group_exploded s @ map explode ?hit))"
    using group_update_Inr[OF e] by (simp add: s' ex2 v)
  ultimately show ?thesis
    using r by (intro exI[of _ s1] exI[of _ ?hit]) simp
qed

lemma play_frame_alive_ids:
  assumes "play_frame n c s inp = Running s'"
  shows "next_id s \<le> next_id s'"
    and "ids (meteoroid_group s') \<subseteq> ids (meteoroid_group s) \<union> {i. next_id s \<le> i}"
proof -
  from assms obtain s1 s2 alive where r: "read_input s inp = Some s1"
    and s2: "s2 = prune (resolve_hits (Player_update s1))"
    and a: "group_update n c (meteoroid_speed s2) (meteoroid_group s2) = Inr alive"
    and s': "meteoroid_group s' = alive" "next_id s' = next_id s2"
    by (rule play_frame_Running) simp
  have "ids (meteoroid_group s2) \<subseteq> ids (meteoroid_group s1)"
    by (auto simp: s2 prune_def spritecollide_def resolve_hits_unfold hit_loop_alive
          Player_update_fields ids_def)
  moreover have "ids alive \<subseteq> ids (meteoroid_group s2)"
    unfolding group_update_Inr[OF a] ids_map_moved by (rule ids_filter_subset)
  moreover have "next_id s2 = next_id s1"
    by (simp add: s2 prune_fields resolve_hits_fields Player_update_fields)
  ultimately show "next_id s \<le> next_id s'"
    and "ids (meteoroid_group s') \<subseteq> ids (meteoroid_group s) \<union> {i. next_id s \<le> i}"
    using read_input_groups(2,3)[OF r] by (auto simp: s')
qed

lemma play_loop_never_alive:
  assumes "play_loop n c s inps = Running s'" and "i < next_id s" and "i \<notin> ids (meteoroid_group s)"
  shows "i < next_id s' \<and> i \<notin> ids (meteoroid_group s')"
  using assms
proof (induction inps arbitrary: s)
  case Nil
  then show ?case by simp
next
  case (Cons inp inps)
  from Cons.prems(1) obtain t where t: "play_frame n c s inp = Running t"
    and l: "play_loop n c t inps = Running s'"
    by (auto split: outcome.splits)
  from play_frame_alive_ids[OF t] Cons.prems(2,3)
  have "i < next_id t" "i \<notin> ids (meteoroid_group t)"
    by auto
  from Cons.IH[OF l this] show ?case .
qed

lemma play_groups_ok:
  assumes "play n c t0 inps = Running s"
  shows "groups_ok s"
  using assms play_loop_groups_ok[OF _ play_init_groups_ok] by (simp add: play_def)

lemma filter_id_single:
  fixes m :: meteoroid
  assumes "distinct (map m_id g)" and "m \<in> set g"
  shows "filter (\<lambda>m'. m_id m' = m_id m) g = [m]"
  using assms
proof (induction g)
  case Nil
  then show ?case by simp
next
  case (Cons a g)
  show ?case
  proof (cases "a = m")
    case True
    from Cons.prems(1) have "m_id a \<notin> m_id ` set g" by simp
    then have "filter (\<lambda>m'. m_id m' = m_id a) g = []"
      unfolding filter_empty_conv by (metis imageI)
    with True show ?thesis by simp
  next
    case False
    with Cons.prems have "m \<in> set g" "m_id a \<noteq> m_id m" "distinct (map m_id g)"
      by auto
    with Cons.IH show ?thesis by simp
  qed
qed

lemma filter_id_moved:
  "filter (\<lambda>m'. m_id m' = i) (map (moved c v) (filter P g))
     = map (moved c v) (filter P (filter (\<lambda>m'. m_id m' = i) g))"
  by (induction g) (simp_all add: moved_fields)

text \<open>The fate of one exploding meteoroid in the next frame.\<close>

lemma play_frame_exploding:
  assumes "play_frame n c s inp = Running s'" and "groups_ok s"
    and "m \<in> set (meteoroid_group_exploded s)"
  shows "map m_state (filter (\<lambda>m'. m_id m' = m_id m) (meteoroid_group_exploded s'))
           = (if m_state m + 1 = int n then [] else [m_state m + 1])"
proof -
  from play_frame_exploded[OF assms(1,2)] obtain s1 hit where
    "read_input s inp = Some s1" and
    d: "distinct (map m_id (meteoroid_group_exploded s @ map explode hit))"
    and e: "meteoroid_group_exploded s'
               = map (moved c (meteoroid_speed s1))
                   (filter (\<lambda>m. m_state m + 1 \<noteq> int n) (meteoroid_group_exploded s @ map explode hit))"
    by blast
  let ?g = "meteoroid_group_exploded s @ map explode hit"
  from assms(3) have mg: "m \<in> set ?g" by simp
  note only = filter_id_single
  from assms(2,3) have pos: "0 < m_state m"
    by (auto simp: groups_ok_def)
  have "filter (\<lambda>m'. m_id m' = m_id m) (meteoroid_group_exploded s')
        = map (moved c (meteoroid_speed s1))
            (filter (\<lambda>m'. m_state m' + 1 \<noteq> int n) (filter (\<lambda>m'. m_id m' = m_id m) ?g))"
    unfolding e by (rule filter_id_moved)
  also have "\<dots> = (if m_state m + 1 = int n then [] else [moved c (meteoroid_speed s1) m])"
    unfolding only[OF d mg] by simp
  finally show ?thesis
    using pos by (simp add: moved_fields)
qed

lemma play_player_ok:
  assumes "play n c t0 inps = Running s"
  shows "player_ok (player s)"
  using assms play_loop_player_ok[OF _ play_init_player_ok] by (simp add: play_def)

lemma play_frame_left:
  assumes "play_frame n c s inp = Running s'" and "key inp = left_keys"
  shows "rect_x (player s') = (if 0 \<le> rect_x (player s) then rect_x (player s) - player_speed
                               else rect_x (player s))"
    and "rect_y (player s') = rect_y (player s)"
  by (simp_all add: play_frame_player[OF assms(1)] handle_keys_x handle_keys_y assms(2)
        left_keys_def idle_keys_def Let_def)

lemma play_frame_right:
  assumes "play_frame n c s inp = Running s'" and "key inp = right_keys"
  shows "rect_x (player s') = (if rect_x (player s) \<le> windowwidth - 50
                               then rect_x (player s) + player_speed else rect_x (player s))"
  by (simp_all add: play_frame_player[OF assms(1)] handle_keys_x assms(2)
        right_keys_def idle_keys_def Let_def)

lemma play_loop_right:
  assumes "play_loop n c s inps = Running s'" and "\<forall>inp\<in>set inps. key inp = right_keys"
    and "rect_x (player s) mod 3 = 1" and "rect_x (player s) \<le> 1231"
  shows "rect_x (player s') = min (rect_x (player s) + 3 * int (length inps)) 1231"
  using assms
proof (induction inps arbitrary: s)
  case Nil
  then show ?case by simp
next
  case (Cons inp inps)
  from Cons.prems(1) obtain t where t: "play_frame n c s inp = Running t"
    and l: "play_loop n c t inps = Running s'"
    by (auto split: outcome.splits)
  from Cons.prems(2) have k: "key inp = right_keys" and ks: "\<forall>inp\<in>set inps. key inp = right_keys"
    by simp_all
  have xt: "rect_x (player t) = (if rect_x (player s) \<le> 1230 then rect_x (player s) + 3
                                 else rect_x (player s))"
    using play_frame_right[OF t k] by (simp add: windowwidth_def player_speed_def)
  show ?case
  proof (cases "rect_x (player s) \<le> 1230")
    case True
    with xt have x: "rect_x (player t) = rect_x (player s) + 3" by simp
    from True Cons.prems(3) have "rect_x (player t) mod 3 = 1" "rect_x (player t) \<le> 1231"
      unfolding x by presburger+
    from Cons.IH[OF l ks this] show ?thesis
      by (simp add: x algebra_simps)
  next
    case False
    with xt Cons.prems(4) have x: "rect_x (player t) = 1231" "rect_x (player s) = 1231"
      by simp_all
    then have "rect_x (player t) mod 3 = 1" "rect_x (player t) \<le> 1231"
      by simp_all
    from Cons.IH[OF l ks this] show ?thesis
      by (simp add: x)
  qed
qed

lemma play_timer_ok:
  assumes "play n c t0 inps = Running s"
  shows "timer_ok s"
  using assms play_loop_difficulty[OF _ play_init_timer_ok] by (simp add: play_def)

lemma first_overlap_only:
  assumes "m \<in> set ms" and "colliderect (m_rect m) b"
    and "\<forall>m'\<in>set ms. colliderect (m_rect m') b \<longrightarrow> m' = m"
  shows "first_overlap ms b = Some m"
  using assms
proof (induction ms)
  case Nil
  then show ?case by simp
next
  case (Cons a ms)
  show ?case
  proof (cases "colliderect (m_rect a) b")
    case True
    with Cons.prems(3) have "a = m" by simp
    with True show ?thesis by (simp add: first_overlap_Cons)
  next
    case False
    with Cons.prems(1,2) have "m \<in> set ms" by auto
    moreover from Cons.prems(3) have "\<forall>m'\<in>set ms. colliderect (m_rect m') b \<longrightarrow> m' = m"
      by simp
    ultimately have "first_overlap ms b = Some m"
      using Cons.IH Cons.prems(2) by blast
    with False show ?thesis by (simp add: first_overlap_Cons)
  qed
qed

lemma filter_id_explode:
  "filter (\<lambda>m'. m_id m' = i) (map explode (filter P g))
     = map explode (filter P (filter (\<lambda>m'. m_id m' = i) g))"
  by (induction g) (simp_all add: explode_def)

text \<open>Every frame of a run reaches line 878 with distinct sprites in the two groups.\<close>

lemma hit_state_distinct:
  assumes "play n c t0 inps = Running s" and "read_input s inp = Some s1"
  shows "distinct (map m_id (meteoroid_group (Player_update s1)
                             @ meteoroid_group_exploded (Player_update s1)))"
  using read_input_groups(1)[OF assms(2) play_groups_ok[OF assms(1)]]
  by (simp add: groups_ok_def Player_update_fields)

subsection \<open>A meteoroid that is hit, to the end of the frame\<close>

lemma group_update_index:
  assumes "group_update n c speed g = Inr g'"
  shows "\<forall>m'\<in>set g'. m_state m' < int n"
  using assms
proof (induction g arbitrary: g')
  case Nil
  then show ?case by simp
next
  case (Cons m g)
  from Cons.prems obtain m' killed g1 where
    u: "Meteoroid_update n c speed m = Inr (m', killed)"
    and r: "group_update n c speed g = Inr g1"
    and g': "g' = (if killed then g1 else m' # g1)"
    by (auto split: sum.splits prod.splits)
  from u have "index_ok n (m_state m')"
    by (auto simp: Meteoroid_update_def Let_def split: if_splits)
  then have "m_state m' < int n"
    by (simp add: index_ok_def)
  with Cons.IH[OF r] show ?case
    by (simp add: g')
qed

lemma play_frame_hits:
  assumes "play_frame n c s inp = Running s'" and "groups_ok s"
  shows "meteoroid_group_exploded s'
           = map (moved c (meteoroid_speed s'))
               (filter (\<lambda>m. m_state m + 1 \<noteq> int n)
                  (meteoroid_group_exploded s @ map explode (frame_hits s inp)))"
    and "distinct (map m_id (meteoroid_group_exploded s @ map explode (frame_hits s inp)))"
    and "\<forall>m\<in>set (meteoroid_group_exploded s @ map explode (frame_hits s inp)). 1 \<le> m_state m"
    and "\<forall>h\<in>set (frame_hits s inp). m_state h = 0 \<and> m_id h < next_id s'
           \<and> m_id h \<notin> ids (meteoroid_group s')"
    and "\<forall>m\<in>set (meteoroid_group_exploded s'). m_state m < int n"
proof -
  from assms(1) obtain s1 s2 alive exploded where r: "read_input s inp = Some s1"
    and s2: "s2 = prune (resolve_hits (Player_update s1))"
    and a: "group_update n c (meteoroid_speed s2) (meteoroid_group s2) = Inr alive"
    and e: "group_update n c (meteoroid_speed s2) (meteoroid_group_exploded s2) = Inr exploded"
    and s': "s' = s2\<lparr>meteoroid_group := alive, meteoroid_group_exploded := exploded,
                   bullet_group := map (Bullet_update 5) (bullet_group s2)\<rparr>"
    by (rule play_frame_Running)
  let ?H = "hit_by (meteoroid_group s1) (bullet_group s1)"
  have ok1: "groups_ok s1" using read_input_groups(1)[OF r] assms(2) .
  then have da: "distinct (map m_id (meteoroid_group s1))"
    and z: "\<forall>m\<in>set (meteoroid_group s1). m_state m = 0 \<and> m_id m < next_id s1"
    by (simp_all add: groups_ok_def)
  from da have dv: "distinct (meteoroid_group s1)" and inj: "inj_on m_id (set (meteoroid_group s1))"
    by (simp_all add: distinct_map)
  have fh: "frame_hits s inp = filter ?H (meteoroid_group s1)"
    by (simp add: frame_hits_def r groupcollide_keys[OF dv])
  from ok1 have okp: "groups_ok (Player_update s1)"
    using groups_ok_cong[of "Player_update s1" s1] by (simp add: Player_update_fields)
  then have d: "distinct (map m_id (meteoroid_group (Player_update s1)
                   @ meteoroid_group_exploded (Player_update s1)))"
    by (simp add: groups_ok_def)
  have okr: "groups_ok (resolve_hits (Player_update s1))"
    using okp by (rule resolve_hits_groups_ok)
  have exr: "meteoroid_group_exploded (resolve_hits (Player_update s1))
               = meteoroid_group_exploded s @ map explode (frame_hits s inp)"
    by (simp add: resolve_hits_groups(2)[OF d] Player_update_fields read_input_fields(3)[OF r] fh)
  have ex2: "meteoroid_group_exploded s2 = meteoroid_group_exploded s @ map explode (frame_hits s inp)"
    by (simp add: s2 prune_fields exr)
  have v: "meteoroid_speed s' = meteoroid_speed s2" and i: "next_id s' = next_id s1"
    by (simp_all add: s' s2 prune_fields resolve_hits_fields Player_update_fields)
  show "meteoroid_group_exploded s'
           = map (moved c (meteoroid_speed s'))
               (filter (\<lambda>m. m_state m + 1 \<noteq> int n)
                  (meteoroid_group_exploded s @ map explode (frame_hits s inp)))"
    using group_update_Inr[OF e] by (simp add: s' ex2)
  from okr show "distinct (map m_id (meteoroid_group_exploded s @ map explode (frame_hits s inp)))"
    and "\<forall>m\<in>set (meteoroid_group_exploded s @ map explode (frame_hits s inp)). 1 \<le> m_state m"
    unfolding exr[symmetric] by (simp_all add: groups_ok_def)
  have al: "ids (meteoroid_group s') \<subseteq> ids (filter (\<lambda>m. \<not> ?H m) (meteoroid_group s1))"
  proof -
    have "ids (meteoroid_group s2) \<subseteq> ids (filter (\<lambda>m. \<not> ?H m) (meteoroid_group s1))"
      by (auto simp: s2 prune_def spritecollide_def resolve_hits_groups(1)[OF d]
            Player_update_fields ids_def)
    moreover have "ids alive \<subseteq> ids (meteoroid_group s2)"
      unfolding group_update_Inr[OF a] ids_map_moved by (rule ids_filter_subset)
    ultimately show ?thesis by (simp add: s')
  qed
  have "m_id h \<notin> ids (meteoroid_group s')" if "h \<in> set (frame_hits s inp)" for h
  proof
    assume "m_id h \<in> ids (meteoroid_group s')"
    with al obtain m where "m \<in> set (meteoroid_group s1)" "\<not> ?H m" "m_id m = m_id h"
      by (auto simp: ids_def)
    moreover from that have "h \<in> set (meteoroid_group s1)" "?H h"
      by (simp_all add: fh)
    ultimately show False
      using inj by (auto simp: inj_on_def)
  qed
  then show "\<forall>h\<in>set (frame_hits s inp). m_state h = 0 \<and> m_id h < next_id s'
           \<and> m_id h \<notin> ids (meteoroid_group s')"
    using z by (simp add: fh i)
  from group_update_index[OF e] show "\<forall>m\<in>set (meteoroid_group_exploded s'). m_state m < int n"
    by (simp add: s')
qed

lemma filter_id_updated:
  fixes m :: meteoroid
  assumes "distinct (map m_id g)" and "m \<in> set g" and "1 \<le> m_state m"
  shows "map m_state (filter (\<lambda>m'. m_id m' = m_id m)
            (map (moved c v) (filter (\<lambda>m'. m_state m' + 1 \<noteq> int n) g)))
           = (if m_state m + 1 = int n then [] else [m_state m + 1])"
  using assms(3)
  unfolding filter_id_moved filter_id_single[OF assms(1,2)]
  by (simp add: moved_fields)

lemma play_frame_exploding_range:
  assumes "play_frame n c s inp = Running s'" and "groups_ok s"
  shows "\<forall>m\<in>set (meteoroid_group_exploded s'). 2 \<le> m_state m \<and> m_state m < int n"
proof -
  note h = play_frame_hits[OF assms]
  have "2 \<le> m_state m'" if "m' \<in> set (meteoroid_group_exploded s')" for m'
  proof -
    from that obtain m where m: "m \<in> set (meteoroid_group_exploded s @ map explode (frame_hits s inp))"
      and m': "m' = moved c (meteoroid_speed s') m"
      unfolding h(1) by auto
    from h(3) m have "1 \<le> m_state m" by blast
    then show ?thesis
      by (simp add: m' moved_fields)
  qed
  with h(5) show ?thesis by blast
qed

lemma play_loop_exploding_range:
  assumes "play_loop n c s inps = Running s'" and "groups_ok s"
    and "\<forall>m\<in>set (meteoroid_group_exploded s). 2 \<le> m_state m \<and> m_state m < int n"
  shows "\<forall>m\<in>set (meteoroid_group_exploded s'). 2 \<le> m_state m \<and> m_state m < int n"
  using assms
proof (induction inps arbitrary: s)
  case Nil
  then show ?case by simp
next
  case (Cons inp inps)
  from Cons.prems(1) obtain t where t: "play_frame n c s inp = Running t"
    and l: "play_loop n c t inps = Running s'"
    by (auto split: outcome.splits)
  from Cons.IH[OF l play_frame_groups_ok[OF t Cons.prems(2)]
      play_frame_exploding_range[OF t Cons.prems(2)]]
  show ?case .
qed

lemma play_exploding_range:
  assumes "play n c t0 inps = Running s"
  shows "\<forall>m\<in>set (meteoroid_group_exploded s). 2 \<le> m_state m \<and> m_state m < int n"
proof -
  have "\<forall>m\<in>set (meteoroid_group_exploded (play_init t0)). 2 \<le> m_state m \<and> m_state m < int n"
    by (simp add: play_init_def)
  from play_loop_exploding_range[OF assms[unfolded play_def] play_init_groups_ok this]
  show ?thesis .
qed

subsection \<open>No image lookup fails when the explosion has at least two images\<close>

lemma Meteoroid_update_total:
  assumes "0 \<le> m_state m" and "m_state m < int n"
  shows "Meteoroid_update n c speed m
           = Inr (if m_state m + 1 = int n
                  then (m\<lparr>m_rect := (m_rect m)\<lparr>rect_x := rect_store c (of_int (rect_x (m_rect m)) - speed)\<rparr>\<rparr>, True)
                  else (moved c speed m, False))"
  using assms by (simp add: Meteoroid_update_def Let_def index_ok_def moved_def)

lemma group_update_total:
  assumes "\<forall>m\<in>set g. 0 \<le> m_state m \<and> m_state m < int n"
  shows "group_update n c speed g = Inr (map (moved c speed) (filter (\<lambda>m. m_state m + 1 \<noteq> int n) g))"
  using assms
proof (induction g)
  case Nil
  then show ?case by simp
next
  case (Cons m g)
  from Cons.prems have m: "0 \<le> m_state m" "m_state m < int n"
    and g: "\<forall>m\<in>set g. 0 \<le> m_state m \<and> m_state m < int n"
    by simp_all
  show ?case
    by (simp add: Meteoroid_update_total[OF m] Cons.IH[OF g])
qed

lemma before_update_ok:
  assumes "frames_ok n s" and "2 \<le> n" and "read_input s inp = Some s1"
  shows "frames_ok n (prune (resolve_hits (Player_update s1)))"
proof -
  let ?s2 = "prune (resolve_hits (Player_update s1))"
  from assms(1) have ok: "groups_ok s"
    and lt: "\<forall>m\<in>set (meteoroid_group_exploded s). m_state m < int n"
    by (simp_all add: frames_ok_def)
  have ok1: "groups_ok s1" using read_input_groups(1)[OF assms(3) ok] .
  then have okp: "groups_ok (Player_update s1)"
    using groups_ok_cong[of "Player_update s1" s1] by (simp add: Player_update_fields)
  then have d: "distinct (map m_id (meteoroid_group (Player_update s1)
                   @ meteoroid_group_exploded (Player_update s1)))"
    by (simp add: groups_ok_def)
  have ok2: "groups_ok ?s2"
    using okp by (intro prune_groups_ok resolve_hits_groups_ok)
  have ex2: "meteoroid_group_exploded ?s2 = meteoroid_group_exploded s
               @ map explode (filter (hit_by (meteoroid_group s1) (bullet_group s1)) (meteoroid_group s1))"
    by (simp add: prune_fields resolve_hits_groups(2)[OF d] Player_update_fields
          read_input_fields(3)[OF assms(3)])
  from ok1 have z: "\<forall>m\<in>set (meteoroid_group s1). m_state m = 0"
    by (simp add: groups_ok_def)
  have "m_state m < int n" if "m \<in> set (meteoroid_group_exploded ?s2)" for m
  proof (cases "m \<in> set (meteoroid_group_exploded s)")
    case True
    with lt show ?thesis by simp
  next
    case False
    with that obtain h where "h \<in> set (meteoroid_group s1)" "m = explode h"
      unfolding ex2 by auto
    with z assms(2) show ?thesis by (simp add: explode_def)
  qed
  with ok2 show ?thesis
    by (simp add: frames_ok_def)
qed

lemma update_groups_frames_ok:
  assumes "frames_ok n s" and "2 \<le> n"
  shows "\<exists>s'. update_groups n c s = Running s' \<and> frames_ok n s'"
proof -
  from assms(1) have ok: "groups_ok s"
    and lt: "\<forall>m\<in>set (meteoroid_group_exploded s). m_state m < int n"
    by (simp_all add: frames_ok_def)
  from ok assms(2) have a: "\<forall>m\<in>set (meteoroid_group s). 0 \<le> m_state m \<and> m_state m < int n"
    by (simp add: groups_ok_def)
  from ok lt have e: "\<forall>m\<in>set (meteoroid_group_exploded s). 0 \<le> m_state m \<and> m_state m < int n"
    by (fastforce simp: groups_ok_def)
  note ua = group_update_total[OF a, of c "meteoroid_speed s"]
    and ue = group_update_total[OF e, of c "meteoroid_speed s"]
  let ?s' = "s\<lparr>meteoroid_group := map (moved c (meteoroid_speed s))
                  (filter (\<lambda>m. m_state m + 1 \<noteq> int n) (meteoroid_group s)),
                meteoroid_group_exploded := map (moved c (meteoroid_speed s))
                  (filter (\<lambda>m. m_state m + 1 \<noteq> int n) (meteoroid_group_exploded s)),
                bullet_group := map (Bullet_update 5) (bullet_group s)\<rparr>"
  have u: "update_groups n c s = Running ?s'"
    by (simp add: update_groups_def ua ue)
  have "groups_ok ?s'"
    by (rule updated_groups_ok[OF ok ua ue])
  moreover have "\<forall>m\<in>set (meteoroid_group_exploded ?s'). m_state m < int n"
    using lt by (auto simp: moved_fields)
  ultimately show ?thesis
    using u by (simp add: frames_ok_def)
qed

lemma finish_frame_cases:
  "finish_frame n c k s1 =
     (if K_ESCAPE k \<or> fst (spritecollide (player s1) m_rect (meteoroid_group s1)) \<noteq> []
      then GameOver (score s1)
      else update_groups n c (prune (resolve_hits (Player_update s1))))"
proof (cases "fst (spritecollide (player s1) m_rect (meteoroid_group s1)) = []")
  case True
  then have same: "snd (spritecollide (player s1) m_rect (meteoroid_group s1)) = meteoroid_group s1"
    by (rule spritecollide_nohit)
  have idem: "(Player_update s1)\<lparr>meteoroid_group := meteoroid_group s1\<rparr> = Player_update s1"
    by (simp add: Player_update_fields(4)[of s1, symmetric])
  from True same show ?thesis
    by (auto simp: finish_frame_def Let_def Player_update_fields idem split: prod.splits)
next
  case False
  then show ?thesis
    by (auto simp: finish_frame_def Let_def Player_update_fields split: prod.splits)
qed

lemma play_frame_frames_ok:
  assumes "frames_ok n s" and "2 \<le> n"
  shows "play_frame n c s inp \<noteq> Crash e \<and> (\<forall>s'. play_frame n c s inp = Running s' \<longrightarrow> frames_ok n s')"
proof (cases "read_input s inp")
  case None
  then show ?thesis by (simp add: play_frame_def)
next
  case (Some s1)
  from update_groups_frames_ok[OF before_update_ok[OF assms Some] assms(2)]
  obtain s'' where "update_groups n c (prune (resolve_hits (Player_update s1))) = Running s''"
    and "frames_ok n s''"
    by blast
  then show ?thesis
    by (simp add: play_frame_def Some finish_frame_cases)
qed

lemma play_loop_frames_ok:
  assumes "frames_ok n s" and "2 \<le> n"
  shows "play_loop n c s inps \<noteq> Crash e"
  using assms(1)
proof (induction inps arbitrary: s)
  case Nil
  then show ?case by simp
next
  case (Cons inp inps)
  from play_frame_frames_ok[OF Cons.prems assms(2), of c inp e] Cons.IH
  show ?case
    by (cases "play_frame n c s inp") simp_all
qed

text \<open>
  With at least two images of the explosion, no frame of a run ends in the
  \<^verbatim>\<open>IndexError\<close> of the image lookup.
\<close>

lemma play_no_crash:
  assumes "2 \<le> n"
  shows "play n c t0 inps \<noteq> Crash e"
proof -
  have "frames_ok n (play_init t0)"
    by (simp add: frames_ok_def play_init_groups_ok) (simp add: play_init_def)
  from play_loop_frames_ok[OF this assms] show ?thesis
    by (simp add: play_def)
qed

section \<open>Concrete runs\<close>

text \<open>
  The runs and frames below are computed from the definitions, with 4 images of the
  explosion. The speed of the meteoroids is an integer in all of them, so every value
  stored into a rectangle by an update is integral and the conversion, here \<open>round\<close>, is
  never applied.
\<close>

lemma demo_run_114: "play 4 round 0 demo_inputs = Running demo_114"
  by code_simp

lemma demo_frame_115: "play_frame 4 round demo_114 idle_input = Running demo_115"
  by code_simp

lemma demo_frame_116: "play_frame 4 round demo_115 idle_input = Running demo_116"
  by code_simp

lemma demo_frame_117: "play_frame 4 round demo_116 idle_input = Running demo_117"
  by code_simp

lemma demo_run_115: "play 4 round 0 (demo_inputs @ [idle_input]) = Running demo_115"
  using demo_run_114 demo_frame_115 by (simp add: play_def play_loop_append)

lemma demo_run_116: "play 4 round 0 (demo_inputs @ [idle_input, idle_input]) = Running demo_116"
  using demo_run_114 demo_frame_115 demo_frame_116 by (simp add: play_def play_loop_append)

lemma run_left_34: "play 4 round 0 (replicate 34 (press left_keys)) = Running (plain_state 34 True False False 1 0 (- 2) 360)"
  by code_simp

lemma frame_left_35:
  "play_frame 4 round (plain_state 34 True False False 1 0 (- 2) 360) (press left_keys)
     = Running (plain_state 35 True False False 2 0 (- 2) 360)"
  by code_simp

lemma run_right_1: "play 4 round 0 [press right_keys] = Running (plain_state 1 False True False 1 0 103 360)"
  by code_simp

lemma run_up_121: "play 4 round 0 (replicate 121 (press up_keys)) = Running (plain_state 121 False False True 0 1 100 (- 3))"
  by code_simp

lemma frame_diagonal:
  "play_frame 4 round (play_init 0) (press diagonal_keys)
     = Running (plain_state 1 False False True 0 1 97 357)"
  by code_simp

lemma run_escalate_3:
  "play 4 round 0 [escalate_input, escalate_input, escalate_input] = Running (hard_state 3 3 (19 / 4) 1200)"
  by code_simp

lemma run_escalate_13:
  "play 4 round 0 (replicate 13 escalate_input) = Running (hard_state 13 1 (29 / 4) 200)"
  by code_simp

lemma frame_escalate_14:
  "play_loop 4 round (hard_state 13 1 (29 / 4) 200) [escalate_input] = Running (hard_state 14 2 (15 / 2) 200)"
  by code_simp

lemma input_shot_501:
  "read_input (play_init 0) (shoot_input 501)
     = Some ((begin_frame (play_init 0))\<lparr>previous_time := 501, bullet_group := [Bullet 100 360]\<rparr>)"
  by code_simp

lemma input_shot_500:
  "read_input (play_init 0) (shoot_input 500) = Some (begin_frame (play_init 0))"
  by code_simp

lemma frame_shot_500:
  "play_frame 4 round (play_init 0) (shoot_input 500) = Running (plain_state 1 False False False 0 1 100 360)"
  by code_simp

section \<open>The properties of the specification\<close>

subsection \<open>C1: bullets that hit meteoroids\<close>

text \<open>
  C1, as amended. The statement is about lines 878-883 in any state whose sprites are
  distinct objects, which every frame of every run is when it gets there (lemma
  \<open>hit_state_distinct\<close>). For every alive meteoroid \<open>m\<close>: no bullet that is left overlaps
  it, and the bullets left are exactly the ones that overlapped no alive meteoroid, so
  all N bullets overlapping \<open>m\<close> are removed. \<^verbatim>\<open>groupcollide\<close> hands each bullet to the
  first meteoroid of the group it overlaps; \<open>m\<close> leaves the alive group exactly when it is
  that meteoroid for at least one bullet, and then it is in the exploding group exactly
  once, with its state raised by 1; otherwise it stays alive and is not in the exploding
  group. The score grows by 100 for each meteoroid moved, whatever the number of bullets.
  A meteoroid with a bullet that overlaps no other alive meteoroid is always moved.
\<close>

theorem hits_resolved:
  assumes "distinct (map m_id (meteoroid_group s @ meteoroid_group_exploded s))"
    and "m \<in> set (meteoroid_group s)"
  shows "(\<forall>b\<in>set (bullet_group (resolve_hits s)). \<not> colliderect (m_rect m) b)
       \<and> bullet_group (resolve_hits s)
           = filter (\<lambda>b. \<forall>m'\<in>set (meteoroid_group s). \<not> colliderect (m_rect m') b) (bullet_group s)
       \<and> (m_id m \<in> ids (meteoroid_group (resolve_hits s))
            \<longleftrightarrow> \<not> hit_by (meteoroid_group s) (bullet_group s) m)
       \<and> filter (\<lambda>m'. m_id m' = m_id m) (meteoroid_group_exploded (resolve_hits s))
           = (if hit_by (meteoroid_group s) (bullet_group s) m
              then [m\<lparr>m_state := m_state m + 1\<rparr>] else [])
       \<and> score (resolve_hits s)
           = score s + 100 * int (length (filter (hit_by (meteoroid_group s) (bullet_group s))
                                            (meteoroid_group s)))
       \<and> ((\<exists>b\<in>set (bullet_group s). colliderect (m_rect m) b
              \<and> (\<forall>m'\<in>set (meteoroid_group s). colliderect (m_rect m') b \<longrightarrow> m' = m))
            \<longrightarrow> hit_by (meteoroid_group s) (bullet_group s) m)"
proof -
  let ?H = "hit_by (meteoroid_group s) (bullet_group s)"
  note g = resolve_hits_groups[OF assms(1)]
  from assms(1) have da: "distinct (map m_id (meteoroid_group s))"
    and fresh: "m_id m \<notin> ids (meteoroid_group_exploded s)"
    using assms(2) by (auto simp: ids_def)
  from da have inj: "inj_on m_id (set (meteoroid_group s))"
    by (simp add: distinct_map)
  have b: "bullet_group (resolve_hits s)
           = filter (\<lambda>b. \<forall>m'\<in>set (meteoroid_group s). \<not> colliderect (m_rect m') b) (bullet_group s)"
    by (simp add: resolve_hits_bullets first_overlap_None)
  then have 1: "\<forall>b\<in>set (bullet_group (resolve_hits s)). \<not> colliderect (m_rect m) b"
    using assms(2) by simp
  have 3: "m_id m \<in> ids (meteoroid_group (resolve_hits s)) \<longleftrightarrow> \<not> ?H m"
    using assms(2) inj unfolding g(1) by (auto simp: ids_def inj_on_def)
  have "filter (\<lambda>m'. m_id m' = m_id m) (meteoroid_group_exploded s) = []"
    using fresh unfolding filter_empty_conv ids_def by (metis imageI)
  moreover note filter_id_explode[of "m_id m" ?H "meteoroid_group s"]
  ultimately have 4: "filter (\<lambda>m'. m_id m' = m_id m) (meteoroid_group_exploded (resolve_hits s))
           = (if ?H m then [m\<lparr>m_state := m_state m + 1\<rparr>] else [])"
    unfolding g(2) filter_append filter_id_single[OF da assms(2)]
    by (simp add: explode_def)
  have 6: "(\<exists>b\<in>set (bullet_group s). colliderect (m_rect m) b
              \<and> (\<forall>m'\<in>set (meteoroid_group s). colliderect (m_rect m') b \<longrightarrow> m' = m))
            \<longrightarrow> ?H m"
    using first_overlap_only[OF assms(2)] unfolding hit_by_def by blast
  show ?thesis
    by (intro conjI) (fact 1, fact b, fact 3, fact 4, fact g(3), fact 6)
qed

text \<open>Frame 116 of the run: the second bullet overlaps the remaining meteoroid only.\<close>

theorem hits_resolved_witness:
  "distinct (map m_id (meteoroid_group demo_hit_115 @ meteoroid_group_exploded demo_hit_115))
   \<and> meteoroid_group demo_hit_115 = [demo_m1\<lparr>m_rect := Rect 820 380 38 33\<rparr>]
   \<and> bullet_group demo_hit_115 = [Rect 810 390 15 12]
   \<and> colliderect (Rect 820 380 38 33) (Rect 810 390 15 12)
   \<and> bullet_group (resolve_hits demo_hit_115) = []
   \<and> m_id demo_m1 \<notin> ids (meteoroid_group (resolve_hits demo_hit_115))
   \<and> filter (\<lambda>m'. m_id m' = m_id demo_m1) (meteoroid_group_exploded (resolve_hits demo_hit_115))
       = [demo_m1\<lparr>m_rect := Rect 820 380 38 33, m_state := 1\<rparr>]
   \<and> score (resolve_hits demo_hit_115) = score demo_hit_115 + 100"
proof -
  let ?m = "demo_m1\<lparr>m_rect := Rect 820 380 38 33\<rparr>"
  have d: "distinct (map m_id (meteoroid_group demo_hit_115 @ meteoroid_group_exploded demo_hit_115))"
    by code_simp
  have a: "meteoroid_group demo_hit_115 = [?m]"
    by code_simp
  have bs: "bullet_group demo_hit_115 = [Rect 810 390 15 12]"
    by code_simp
  have c: "colliderect (Rect 820 380 38 33) (Rect 810 390 15 12)"
    by code_simp
  have m: "?m \<in> set (meteoroid_group demo_hit_115)"
    by (simp add: a)
  have h: "hit_by (meteoroid_group demo_hit_115) (bullet_group demo_hit_115) ?m"
    unfolding a bs by code_simp
  have i: "m_id ?m = m_id demo_m1" "m_state ?m = 0"
    by (simp_all add: demo_m1_def)
  from hits_resolved[OF d m] h
  have "bullet_group (resolve_hits demo_hit_115)
          = filter (\<lambda>b. \<forall>m'\<in>set (meteoroid_group demo_hit_115). \<not> colliderect (m_rect m') b)
              (bullet_group demo_hit_115)"
    and "m_id demo_m1 \<notin> ids (meteoroid_group (resolve_hits demo_hit_115))"
    and "filter (\<lambda>m'. m_id m' = m_id demo_m1) (meteoroid_group_exploded (resolve_hits demo_hit_115))
           = [?m\<lparr>m_state := 1\<rparr>]"
    and "score (resolve_hits demo_hit_115)
           = score demo_hit_115 + 100 * int (length (filter (hit_by (meteoroid_group demo_hit_115)
               (bullet_group demo_hit_115)) (meteoroid_group demo_hit_115)))"
    by (simp_all add: i)
  then show ?thesis
    using d a bs c h by (simp add: demo_m1_def)
qed

text \<open>
  C1 as stated fails in frame 115 of the run: the first bullet overlaps both meteoroids,
  the first meteoroid of the group takes it, and the second one, overlapped by N = 1
  bullet, stays alive.
\<close>

theorem shared_bullet_counterexample:
  "play 4 round 0 demo_inputs = Running demo_114
   \<and> read_input demo_114 idle_input = Some (begin_frame demo_114)
   \<and> demo_m1 \<in> set (meteoroid_group demo_hit_114)
   \<and> filter (colliderect (m_rect demo_m1)) (bullet_group demo_hit_114) = [Rect 810 390 15 12]
   \<and> demo_m1 \<in> set (meteoroid_group (resolve_hits demo_hit_114))
   \<and> m_id demo_m1 \<notin> ids (meteoroid_group_exploded (resolve_hits demo_hit_114))
   \<and> play_frame 4 round demo_114 idle_input = Running demo_115
   \<and> m_id demo_m1 \<in> ids (meteoroid_group demo_115)
   \<and> m_id demo_m1 \<notin> ids (meteoroid_group_exploded demo_115)
   \<and> score demo_115 = score demo_114 + 1 + 100"
proof -
  have "read_input demo_114 idle_input = Some (begin_frame demo_114)"
    by code_simp
  moreover have "demo_m1 \<in> set (meteoroid_group demo_hit_114)"
    by code_simp
  moreover have "filter (colliderect (m_rect demo_m1)) (bullet_group demo_hit_114) = [Rect 810 390 15 12]"
    by code_simp
  moreover have "demo_m1 \<in> set (meteoroid_group (resolve_hits demo_hit_114))"
    by code_simp
  moreover have "m_id demo_m1 \<notin> ids (meteoroid_group_exploded (resolve_hits demo_hit_114))"
    by code_simp
  moreover have "m_id demo_m1 \<in> ids (meteoroid_group demo_115)"
    by code_simp
  moreover have "m_id demo_m1 \<notin> ids (meteoroid_group_exploded demo_115)"
    by code_simp
  moreover have "score demo_115 = score demo_114 + 1 + 100"
    by (simp add: demo_115_def demo_114_def demo_state_def)
  ultimately show ?thesis
    using demo_run_114 demo_frame_115 by simp
qed

subsection \<open>C2: the explosion of a meteoroid\<close>

text \<open>
  C2, as amended. Let \<open>n\<close> be the number of images of the explosion. In every state of a
  run, every meteoroid of the exploding group has a state from 2 to \<open>n - 1\<close>. A frame
  from there that keeps running removes it from the group if its state is the last index
  \<open>n - 1\<close>, and otherwise keeps it exactly once with its state raised by exactly 1: a
  meteoroid whose state has reached the last index stays in the group to the end of that
  frame and is removed by the update of the next one. A meteoroid that is hit in a frame
  had state 0; line 880 raises it to 1 and the update of the same frame to 2, so at the
  end of that frame it is in the exploding group exactly once with state 2, or already
  removed when there are only two images. However the run goes on, a meteoroid that was
  in the exploding group or is hit is never in the alive group again.
\<close>

theorem exploding_lifecycle:
  assumes "play n c t0 inps = Running s"
  shows "(\<forall>m\<in>set (meteoroid_group_exploded s).
            2 \<le> m_state m \<and> m_state m < int n
            \<and> (\<forall>inp s'. play_frame n c s inp = Running s' \<longrightarrow>
                  map m_state (filter (\<lambda>m'. m_id m' = m_id m) (meteoroid_group_exploded s'))
                    = (if m_state m + 1 = int n then [] else [m_state m + 1]))
            \<and> (\<forall>inps' s'. play_loop n c s inps' = Running s' \<longrightarrow>
                  m_id m \<notin> ids (meteoroid_group s')))
       \<and> (\<forall>inp s'. play_frame n c s inp = Running s' \<longrightarrow>
            (\<forall>h\<in>set (frame_hits s inp).
               m_state h = 0
               \<and> map m_state (filter (\<lambda>m'. m_id m' = m_id h) (meteoroid_group_exploded s'))
                   = (if n = 2 then [] else [2])
               \<and> (\<forall>inps' s''. play_loop n c s' inps' = Running s'' \<longrightarrow>
                     m_id h \<notin> ids (meteoroid_group s''))))"
proof -
  note ok = play_groups_ok[OF assms]
  have old: "2 \<le> m_state m \<and> m_state m < int n
            \<and> (\<forall>inp s'. play_frame n c s inp = Running s' \<longrightarrow>
                  map m_state (filter (\<lambda>m'. m_id m' = m_id m) (meteoroid_group_exploded s'))
                    = (if m_state m + 1 = int n then [] else [m_state m + 1]))
            \<and> (\<forall>inps' s'. play_loop n c s inps' = Running s' \<longrightarrow>
                  m_id m \<notin> ids (meteoroid_group s'))"
    if m: "m \<in> set (meteoroid_group_exploded s)" for m
  proof -
    from play_exploding_range[OF assms] m have "2 \<le> m_state m \<and> m_state m < int n"
      by blast
    moreover from ok m have "m_id m < next_id s" "m_id m \<notin> ids (meteoroid_group s)"
      by (auto simp: groups_ok_def ids_def)
    then have "\<forall>inps' s'. play_loop n c s inps' = Running s' \<longrightarrow> m_id m \<notin> ids (meteoroid_group s')"
      using play_loop_never_alive by blast
    moreover have "\<forall>inp s'. play_frame n c s inp = Running s' \<longrightarrow>
            map m_state (filter (\<lambda>m'. m_id m' = m_id m) (meteoroid_group_exploded s'))
              = (if m_state m + 1 = int n then [] else [m_state m + 1])"
      using play_frame_exploding[OF _ ok m] by blast
    ultimately show ?thesis by blast
  qed
  have new: "m_state h = 0
               \<and> map m_state (filter (\<lambda>m'. m_id m' = m_id h) (meteoroid_group_exploded s'))
                   = (if n = 2 then [] else [2])
               \<and> (\<forall>inps' s''. play_loop n c s' inps' = Running s'' \<longrightarrow>
                     m_id h \<notin> ids (meteoroid_group s''))"
    if r: "play_frame n c s inp = Running s'" and h: "h \<in> set (frame_hits s inp)" for inp s' h
  proof -
    note f = play_frame_hits[OF r ok]
    from f(4) h have h0: "m_state h = 0" and lt: "m_id h < next_id s'"
      and na: "m_id h \<notin> ids (meteoroid_group s')"
      by blast+
    have e: "explode h \<in> set (meteoroid_group_exploded s @ map explode (frame_hits s inp))"
      using h by simp
    have eh: "m_id (explode h) = m_id h" "m_state (explode h) = 1"
      using h0 by (simp_all add: explode_def)
    have "1 \<le> m_state (explode h)" by (simp add: eh)
    from filter_id_updated[OF f(2) e this, of c "meteoroid_speed s'" n]
    have "map m_state (filter (\<lambda>m'. m_id m' = m_id h) (meteoroid_group_exploded s'))
            = (if n = 2 then [] else [2])"
      unfolding f(1) eh by (simp cong: if_cong)
    moreover have "\<forall>inps' s''. play_loop n c s' inps' = Running s'' \<longrightarrow>
                     m_id h \<notin> ids (meteoroid_group s'')"
      using play_loop_never_alive[OF _ lt na] by blast
    ultimately show ?thesis
      using h0 by blast
  qed
  from old new show ?thesis
    by blast
qed

text \<open>
  With 4 images: the first meteoroid of the run is hit in frame 115 and has state 2 at
  its end, goes to state 3 in frame 116 and is removed in frame 117.
\<close>

theorem exploding_lifecycle_witness:
  "play 4 round 0 (demo_inputs @ [idle_input]) = Running demo_115
   \<and> meteoroid_group_exploded demo_115 = [demo_m0\<lparr>m_rect := Rect 820 390 38 33, m_state := 2\<rparr>]
   \<and> play_frame 4 round demo_115 idle_input = Running demo_116
   \<and> map m_state (filter (\<lambda>m'. m_id m' = 0) (meteoroid_group_exploded demo_116)) = [3]
   \<and> play 4 round 0 (demo_inputs @ [idle_input, idle_input]) = Running demo_116
   \<and> play_frame 4 round demo_116 idle_input = Running demo_117
   \<and> map m_state (filter (\<lambda>m'. m_id m' = 0) (meteoroid_group_exploded demo_117)) = []
   \<and> 0 \<notin> ids (meteoroid_group demo_117)
   \<and> play 4 round 0 demo_inputs = Running demo_114
   \<and> frame_hits demo_114 idle_input = [demo_m0]
   \<and> play_frame 4 round demo_114 idle_input = Running demo_115
   \<and> map m_state (filter (\<lambda>m'. m_id m' = 0) (meteoroid_group_exploded demo_115)) = [2]"
proof -
  let ?a = "demo_m0\<lparr>m_rect := Rect 820 390 38 33, m_state := 2\<rparr>"
  let ?b = "demo_m0\<lparr>m_rect := Rect 816 390 38 33, m_state := 3\<rparr>"
  have e5: "meteoroid_group_exploded demo_115 = [?a]"
    by (simp add: demo_115_def demo_state_def)
  have a: "?a \<in> set (meteoroid_group_exploded demo_115)"
    by (simp add: e5)
  have b: "?b \<in> set (meteoroid_group_exploded demo_116)"
    by (simp add: demo_116_def demo_state_def)
  have i: "m_id ?a = 0" "m_state ?a = 2" "m_id ?b = 0" "m_state ?b = 3" "m_id demo_m0 = 0"
    by (simp_all add: demo_m0_def)
  have l: "play_loop 4 round demo_116 [idle_input] = Running demo_117"
    using demo_frame_117 by simp
  have h: "frame_hits demo_114 idle_input = [demo_m0]"
    by code_simp
  then have hm: "demo_m0 \<in> set (frame_hits demo_114 idle_input)"
    by simp
  note w5 = exploding_lifecycle[OF demo_run_115, THEN conjunct1, THEN bspec, OF a]
  note w6 = exploding_lifecycle[OF demo_run_116, THEN conjunct1, THEN bspec, OF b]
  note w4 = exploding_lifecycle[OF demo_run_114, THEN conjunct2, rule_format, OF demo_frame_115 hm]
  from w5[THEN conjunct2, THEN conjunct2, THEN conjunct1, rule_format, OF demo_frame_116]
  have 1: "map m_state (filter (\<lambda>m'. m_id m' = 0) (meteoroid_group_exploded demo_116)) = [3]"
    by (simp add: i)
  from w6[THEN conjunct2, THEN conjunct2, THEN conjunct1, rule_format, OF demo_frame_117]
  have 2: "map m_state (filter (\<lambda>m'. m_id m' = 0) (meteoroid_group_exploded demo_117)) = []"
    by (simp add: i)
  from w6[THEN conjunct2, THEN conjunct2, THEN conjunct2, rule_format, OF l]
  have 3: "0 \<notin> ids (meteoroid_group demo_117)"
    by (simp add: i)
  from w4[THEN conjunct2, THEN conjunct1]
  have 4: "map m_state (filter (\<lambda>m'. m_id m' = 0) (meteoroid_group_exploded demo_115)) = [2]"
    by (simp add: i)
  from 1 2 3 4 e5 h demo_run_114 demo_run_115 demo_run_116 demo_frame_115 demo_frame_116
    demo_frame_117
  show ?thesis
    by simp
qed

text \<open>
  C2 as stated fails in the run: after frame 116 the first meteoroid is at state 3, the
  last index of 4 images, and is still in the exploding group; and in frame 115, in which
  it is hit, its state goes from 0 to 2.
\<close>

theorem late_removal_counterexample:
  "play 4 round 0 (demo_inputs @ [idle_input, idle_input]) = Running demo_116
   \<and> map m_id (meteoroid_group_exploded demo_116) = [0, 1]
   \<and> map m_state (meteoroid_group_exploded demo_116) = [3, 2]
   \<and> index_ok 4 3 \<and> \<not> index_ok 4 (3 + 1)
   \<and> play 4 round 0 demo_inputs = Running demo_114
   \<and> map m_id (meteoroid_group demo_114) = [0, 1]
   \<and> map m_state (meteoroid_group demo_114) = [0, 0]
   \<and> play_frame 4 round demo_114 idle_input = Running demo_115
   \<and> map m_id (meteoroid_group_exploded demo_115) = [0]
   \<and> map m_state (meteoroid_group_exploded demo_115) = [2]"
  using demo_run_116 demo_run_114 demo_frame_115
  by (simp add: demo_114_def demo_115_def demo_116_def demo_state_def demo_m0_def demo_m1_def
        index_ok_def)

subsection \<open>C3: the range of the player\<close>

text \<open>
  C3, as amended. In every state of a run the player is at x in [-2, windowwidth - 50 + 1]
  and y in [-3, windowheight - 50 + 2]. A frame with only the left key moves the player
  left by \<open>player_speed\<close> whenever x is at least 0, also at x = 0, and leaves x alone only
  when x is negative. In a run with only the right key the player advances by
  \<open>player_speed\<close> per frame from x = 100 and stops at windowwidth - 50 + 1.
\<close>

theorem player_position_range:
  assumes "play n c t0 inps = Running s"
  shows "- 2 \<le> rect_x (player s) \<and> rect_x (player s) \<le> windowwidth - 50 + 1
       \<and> - 3 \<le> rect_y (player s) \<and> rect_y (player s) \<le> windowheight - 50 + 2
       \<and> (\<forall>inp s'. play_frame n c s inp = Running s' \<and> key inp = left_keys \<longrightarrow>
             rect_x (player s') = (if 0 \<le> rect_x (player s) then rect_x (player s) - player_speed
                                   else rect_x (player s)))
       \<and> ((\<forall>inp\<in>set inps. key inp = right_keys) \<longrightarrow>
             rect_x (player s) = min (100 + player_speed * int (length inps)) (windowwidth - 50 + 1))"
proof -
  from play_player_ok[OF assms] have "- 2 \<le> rect_x (player s) \<and> rect_x (player s) \<le> windowwidth - 50 + 1
       \<and> - 3 \<le> rect_y (player s) \<and> rect_y (player s) \<le> windowheight - 50 + 2"
    by (simp add: player_ok_def windowwidth_def windowheight_def)
  moreover have "\<forall>inp s'. play_frame n c s inp = Running s' \<and> key inp = left_keys \<longrightarrow>
             rect_x (player s') = (if 0 \<le> rect_x (player s) then rect_x (player s) - player_speed
                                   else rect_x (player s))"
    using play_frame_left(1) by blast
  moreover have "rect_x (player s) = min (100 + player_speed * int (length inps)) (windowwidth - 50 + 1)"
    if "\<forall>inp\<in>set inps. key inp = right_keys"
  proof -
    have "rect_x (player (play_init t0)) = 100"
      by (simp add: play_init_def Player_def Rect_def)
    with play_loop_right[OF assms[unfolded play_def] that] show ?thesis
      by (simp add: player_speed_def windowwidth_def)
  qed
  ultimately show ?thesis by blast
qed

text \<open>After 34 frames of left the player is at x = -2 and a further frame of left leaves it there; one frame of right moves it to 103.\<close>

theorem player_position_range_witness:
  "play 4 round 0 (replicate 34 (press left_keys)) = Running (plain_state 34 True False False 1 0 (- 2) 360)
   \<and> rect_x (player (plain_state 34 True False False 1 0 (- 2) 360)) = - 2
   \<and> play_frame 4 round (plain_state 34 True False False 1 0 (- 2) 360) (press left_keys)
       = Running (plain_state 35 True False False 2 0 (- 2) 360)
   \<and> rect_x (player (plain_state 35 True False False 2 0 (- 2) 360)) = - 2
   \<and> play 4 round 0 [press right_keys] = Running (plain_state 1 False True False 1 0 103 360)
   \<and> rect_x (player (plain_state 1 False True False 1 0 103 360)) = 100 + player_speed"
  using player_position_range[OF run_left_34] player_position_range[OF run_right_1]
    run_left_34 frame_left_35 run_right_1
  by (simp add: plain_state_def Rect_def player_speed_def)

text \<open>C3 as stated fails after 34 frames of left: x is negative.\<close>

theorem player_position_clamp_counterexample:
  "play 4 round 0 (replicate 34 (press left_keys)) = Running (plain_state 34 True False False 1 0 (- 2) 360)
   \<and> rect_x (player (plain_state 34 True False False 1 0 (- 2) 360)) < 0"
  using run_left_34 by (simp add: plain_state_def Rect_def)

subsection \<open>C4: the direction keys\<close>

text \<open>
  C4, as amended. After a frame, at most one of the flags left, right, up and down is
  set: the one of the last pressed key in the order left, right, up, down. The position
  takes the move of every pressed key whose guard passes: left then right on x, up then
  down on y, both axes in the same frame.
\<close>

theorem direction_keys_frame:
  assumes "play_frame n c s inp = Running s'"
  shows "(left s' \<longleftrightarrow> K_a (key inp) \<and> \<not> K_d (key inp) \<and> \<not> K_w (key inp) \<and> \<not> K_s (key inp))
       \<and> (right s' \<longleftrightarrow> K_d (key inp) \<and> \<not> K_w (key inp) \<and> \<not> K_s (key inp))
       \<and> (up s' \<longleftrightarrow> K_w (key inp) \<and> \<not> K_s (key inp))
       \<and> (down s' \<longleftrightarrow> K_s (key inp))
       \<and> rect_x (player s') =
           (let x = rect_x (player s);
                x1 = (if K_a (key inp) \<and> 0 \<le> x then x - player_speed else x)
            in if K_d (key inp) \<and> x1 \<le> windowwidth - 50 then x1 + player_speed else x1)
       \<and> rect_y (player s') =
           (let y = rect_y (player s);
                y1 = (if K_w (key inp) \<and> 0 \<le> y then y - player_speed else y)
            in if K_s (key inp) \<and> y1 \<le> windowheight - 50 then y1 + player_speed else y1)"
proof -
  from play_frame_fields[OF assms] obtain s1 where r: "read_input s inp = Some s1"
    and f: "left s' = left s1" "right s' = right s1" "up s' = up s1" "down s' = down s1"
    by blast
  note i = read_input_fields[OF r]
  have "left s' \<longleftrightarrow> K_a (key inp) \<and> \<not> K_d (key inp) \<and> \<not> K_w (key inp) \<and> \<not> K_s (key inp)"
    "right s' \<longleftrightarrow> K_d (key inp) \<and> \<not> K_w (key inp) \<and> \<not> K_s (key inp)"
    "up s' \<longleftrightarrow> K_w (key inp) \<and> \<not> K_s (key inp)"
    "down s' \<longleftrightarrow> K_s (key inp)"
    by (auto simp: f i handle_keys_flags begin_frame_fields)
  then show ?thesis
    by (simp only: play_frame_player[OF assms] handle_keys_x handle_keys_y simp_thms)
qed

text \<open>Left and up held in the first frame: only the flag up is set, and both coordinates have changed.\<close>

theorem direction_keys_frame_witness:
  "play_frame 4 round (play_init 0) (press diagonal_keys) = Running (plain_state 1 False False True 0 1 97 357)
   \<and> up (plain_state 1 False False True 0 1 97 357)
   \<and> \<not> left (plain_state 1 False False True 0 1 97 357)
   \<and> rect_x (player (plain_state 1 False False True 0 1 97 357)) = rect_x (player (play_init 0)) - player_speed
   \<and> rect_y (player (plain_state 1 False False True 0 1 97 357)) = rect_y (player (play_init 0)) - player_speed"
  using direction_keys_frame[OF frame_diagonal] frame_diagonal
  by (simp add: press_def diagonal_keys_def idle_keys_def play_init_def Player_def Rect_def
        trunc_def windowheight_def windowwidth_def player_speed_def Let_def)

text \<open>C4 as stated fails in the first frame with left and up held: the player moves from (100, 360) to (97, 357).\<close>

theorem no_diagonal_counterexample:
  "K_a (key (press diagonal_keys)) \<and> K_w (key (press diagonal_keys))
   \<and> play_frame 4 round (play_init 0) (press diagonal_keys) = Running (plain_state 1 False False True 0 1 97 357)
   \<and> player (play_init 0) = Rect 100 360 118 75
   \<and> player (plain_state 1 False False True 0 1 97 357) = Rect (100 - 3) (360 - 3) 118 75"
  using frame_diagonal
  by (simp add: press_def diagonal_keys_def idle_keys_def play_init_def Player_def Rect_def
        trunc_def windowheight_def plain_state_def)

subsection \<open>C5: the difficulty never eases\<close>

text \<open>
  C5. From any state of a run, however the run goes on, the spawn interval does not grow
  and is at least 200, and the speed of the meteoroids does not drop; the same holds for
  a single fire of the difficulty timer in that state.
\<close>

theorem difficulty_monotone:
  assumes "play n c t0 inps = Running s" and "play_loop n c s inps' = Running s'"
  shows "meteoroid_timer s' \<le> meteoroid_timer s \<and> 200 \<le> meteoroid_timer s'
       \<and> meteoroid_speed s \<le> meteoroid_speed s'
       \<and> meteoroid_timer (difficulty_increase s) \<le> meteoroid_timer s
       \<and> 200 \<le> meteoroid_timer (difficulty_increase s)
       \<and> meteoroid_speed s < meteoroid_speed (difficulty_increase s)"
proof -
  note ok = play_timer_ok[OF assms(1)]
  then have ge: "200 \<le> meteoroid_timer s" by (simp add: timer_ok_def)
  from play_loop_difficulty[OF assms(2) ok]
  have t: "meteoroid_timer s' = max 200 (meteoroid_timer s - 100 * int (fires inps'))"
    and v: "meteoroid_speed s' = meteoroid_speed s + of_nat (fires inps') / 4"
    by simp_all
  from ge have "meteoroid_timer s' \<le> meteoroid_timer s" "200 \<le> meteoroid_timer s'"
    unfolding t by simp_all
  moreover have "meteoroid_speed s \<le> meteoroid_speed s'"
    unfolding v by simp
  moreover from ge have "meteoroid_timer (difficulty_increase s) \<le> meteoroid_timer s"
    "200 \<le> meteoroid_timer (difficulty_increase s)"
    unfolding difficulty_increase_timer(2)[OF ok] by simp_all
  moreover have "meteoroid_speed s < meteoroid_speed (difficulty_increase s)"
    unfolding difficulty_increase_timer(3)[OF ok] by simp
  ultimately show ?thesis by simp
qed

text \<open>After 13 fires the interval is 200; a 14th leaves it at 200 and raises the speed.\<close>

theorem difficulty_monotone_witness:
  "play 4 round 0 (replicate 13 escalate_input) = Running (hard_state 13 1 (29 / 4) 200)
   \<and> play_loop 4 round (hard_state 13 1 (29 / 4) 200) [escalate_input] = Running (hard_state 14 2 (15 / 2) 200)
   \<and> meteoroid_timer (hard_state 13 1 (29 / 4) 200) = 200
   \<and> meteoroid_timer (hard_state 14 2 (15 / 2) 200) = 200
   \<and> meteoroid_speed (hard_state 13 1 (29 / 4) 200) \<le> meteoroid_speed (hard_state 14 2 (15 / 2) 200)"
  using difficulty_monotone[OF run_escalate_13 frame_escalate_14] run_escalate_13 frame_escalate_14
  by (simp add: hard_state_def plain_state_def)

subsection \<open>C6: three fires of the difficulty timer\<close>

text \<open>
  C6. In a run in which the difficulty timer has fired \<open>k\<close> times, \<open>k\<close> at most 3, the
  spawn interval is 1500 - 100 k, the speed is 4 + k / 4 and the spawn timer runs with
  the new interval; after three fires the interval is 1200 and the speed 4.75.
\<close>

theorem three_escalations:
  assumes "play n c t0 inps = Running s" and "fires inps = k" and "k \<le> 3"
  shows "meteoroid_timer s = 1500 - 100 * int k
       \<and> meteoroid_speed s = 4 + of_nat k / 4
       \<and> timer_period s = meteoroid_timer s
       \<and> (k = 3 \<longrightarrow> meteoroid_timer s = 1200 \<and> meteoroid_speed s = 19 / 4)"
proof -
  from play_loop_difficulty[OF assms(1)[unfolded play_def] play_init_timer_ok]
  have ok: "timer_ok s"
    and t: "meteoroid_timer s = max 200 (meteoroid_timer (play_init t0) - 100 * int (fires inps))"
    and v: "meteoroid_speed s = meteoroid_speed (play_init t0) + of_nat (fires inps) / 4"
    by simp_all
  have "meteoroid_timer s = 1500 - 100 * int k"
    using assms(3) unfolding t assms(2) by (simp add: play_init_def)
  moreover have "meteoroid_speed s = 4 + of_nat k / 4"
    unfolding v assms(2) by (simp add: play_init_def)
  moreover from ok have "timer_period s = meteoroid_timer s"
    by (simp add: timer_ok_def)
  ultimately show ?thesis by simp
qed

text \<open>Three frames with one fire each.\<close>

theorem three_escalations_witness:
  "play 4 round 0 [escalate_input, escalate_input, escalate_input] = Running (hard_state 3 3 (19 / 4) 1200)
   \<and> fires [escalate_input, escalate_input, escalate_input] = 3
   \<and> meteoroid_timer (hard_state 3 3 (19 / 4) 1200) = 1200
   \<and> meteoroid_speed (hard_state 3 3 (19 / 4) 1200) = 19 / 4"
proof -
  have f: "fires [escalate_input, escalate_input, escalate_input] = 3"
    by (simp add: fires_def escalations_def escalate_input_def)
  from three_escalations[OF run_escalate_3 f] run_escalate_3 f show ?thesis
    by simp
qed

subsection \<open>C7: the score\<close>

text \<open>
  C7. A frame that keeps running adds to the score 1 and 100 for every meteoroid hit in
  it, and does not lower it; a frame that ends the game hands over the score plus 1; over
  any number of frames the score grows by at least the number of frames.
\<close>

theorem score_monotone:
  "(play_frame n c s inp = Running s' \<longrightarrow>
      score s' = score s + 1 + 100 * int (length (frame_hits s inp)) \<and> score s \<le> score s')
   \<and> (play_frame n c s inp = GameOver sc \<longrightarrow> sc = score s + 1)
   \<and> (play_loop n c s inps = Running s'' \<longrightarrow> score s + int (length inps) \<le> score s'')"
proof -
  have "score s' = score s + 1 + 100 * int (length (frame_hits s inp)) \<and> score s \<le> score s'"
    if "play_frame n c s inp = Running s'"
    using play_frame_fields[OF that]
    by (auto simp: frame_hits_def read_input_fields)
  then show ?thesis
    using play_frame_GameOver play_loop_score by blast
qed

text \<open>Frame 115 of the run: one meteoroid is hit and the score goes from 114 to 215.\<close>

theorem score_monotone_witness:
  "play_frame 4 round demo_114 idle_input = Running demo_115
   \<and> frame_hits demo_114 idle_input = [demo_m0]
   \<and> score demo_114 = 114 \<and> score demo_115 = 114 + 1 + 100"
proof -
  have h: "frame_hits demo_114 idle_input = [demo_m0]"
    by code_simp
  have "score demo_114 = 114" "score demo_115 = 215"
    by (simp_all add: demo_114_def demo_115_def demo_state_def)
  with score_monotone[of 4 round demo_114 idle_input demo_115] demo_frame_115 h show ?thesis
    by simp
qed

subsection \<open>C8: the cooldown of the shot\<close>

text \<open>
  C8, as amended. In a frame with the shoot key held, when the input has been read: if
  more than 500 ms have passed since the last shot, one bullet has been added at the
  front of the ship and the clock of the cooldown is the current time; if 500 ms or less
  have passed, the bullets and the clock are unchanged. The rest of the frame leaves the
  clock alone.
\<close>

theorem shot_cooldown:
  assumes "read_input s inp = Some s1" and "K_SPACE (key inp)"
  shows "(500 < ticks inp - previous_time s \<longrightarrow>
            bullet_group s1 = bullet_group s @ [Bullet (rect_x (player s1)) (rect_y (player s1))]
            \<and> previous_time s1 = ticks inp)
       \<and> (ticks inp - previous_time s \<le> 500 \<longrightarrow>
            bullet_group s1 = bullet_group s \<and> previous_time s1 = previous_time s)
       \<and> (\<forall>n s'. play_frame n c s inp = Running s' \<longrightarrow> previous_time s' = previous_time s1)"
proof -
  have "previous_time s' = previous_time s1" if "play_frame n c s inp = Running s'" for n s'
    using play_frame_fields[OF that] assms(1) by auto
  then show ?thesis
    using read_input_shot[OF assms(1)] assms(2) by auto
qed

text \<open>A shot 501 ms after the start.\<close>

theorem shot_cooldown_witness:
  "read_input (play_init 0) (shoot_input 501)
     = Some ((begin_frame (play_init 0))\<lparr>previous_time := 501, bullet_group := [Bullet 100 360]\<rparr>)
   \<and> K_SPACE (key (shoot_input 501))
   \<and> 500 < ticks (shoot_input 501) - previous_time (play_init 0)
   \<and> bullet_group ((begin_frame (play_init 0))\<lparr>previous_time := 501, bullet_group := [Bullet 100 360]\<rparr>)
       = bullet_group (play_init 0) @ [Bullet 100 360]
   \<and> previous_time ((begin_frame (play_init 0))\<lparr>previous_time := 501, bullet_group := [Bullet 100 360]\<rparr>) = 501"
proof -
  have k: "K_SPACE (key (shoot_input 501))"
    by (simp add: shoot_input_def)
  from shot_cooldown[OF input_shot_501 k] input_shot_501 k show ?thesis
    by (simp add: shoot_input_def play_init_def begin_frame_def)
qed

text \<open>C8 as stated fails at exactly 500 ms: no bullet is spawned.\<close>

theorem shot_at_500_counterexample:
  "K_SPACE (key (shoot_input 500))
   \<and> ticks (shoot_input 500) - previous_time (play_init 0) = 500
   \<and> read_input (play_init 0) (shoot_input 500) = Some (begin_frame (play_init 0))
   \<and> bullet_group (begin_frame (play_init 0)) = []
   \<and> play_frame 4 round (play_init 0) (shoot_input 500) = Running (plain_state 1 False False False 0 1 100 360)
   \<and> bullet_group (plain_state 1 False False False 0 1 100 360) = []"
  using input_shot_500 frame_shot_500
  by (simp add: shoot_input_def play_init_def begin_frame_def plain_state_def)

subsection \<open>C9: the two groups of meteoroids\<close>

text \<open>
  C9. In every state of a run, every meteoroid of the alive group has state 0, every
  meteoroid of the exploding group has a state of at least 1, and no meteoroid is in both
  groups. The same holds inside the next frame: when the input has been read, after the
  loop over the hit meteoroids and after the tests against the window borders
  (\<open>groups_ok\<close> says it of a state, together with the distinctness of the sprites).
\<close>

theorem meteoroid_groups_invariant:
  assumes "play n c t0 inps = Running s"
  shows "(\<forall>m\<in>set (meteoroid_group s). m_state m = 0)
       \<and> (\<forall>m\<in>set (meteoroid_group_exploded s). 1 \<le> m_state m)
       \<and> ids (meteoroid_group s) \<inter> ids (meteoroid_group_exploded s) = {}
       \<and> (\<forall>inp s1. read_input s inp = Some s1 \<longrightarrow>
             groups_ok s1 \<and> groups_ok (resolve_hits (Player_update s1))
             \<and> groups_ok (prune (resolve_hits (Player_update s1))))"
proof -
  note ok = play_groups_ok[OF assms]
  have "groups_ok s1 \<and> groups_ok (resolve_hits (Player_update s1))
        \<and> groups_ok (prune (resolve_hits (Player_update s1)))"
    if r: "read_input s inp = Some s1" for inp s1
  proof -
    have ok1: "groups_ok s1" using read_input_groups(1)[OF r ok] .
    then have "groups_ok (Player_update s1)"
      using groups_ok_cong[of "Player_update s1" s1] by (simp add: Player_update_fields)
    then have "groups_ok (resolve_hits (Player_update s1))"
      by (rule resolve_hits_groups_ok)
    with ok1 show ?thesis
      by (simp add: prune_groups_ok)
  qed
  moreover from ok have "(\<forall>m\<in>set (meteoroid_group s). m_state m = 0)
       \<and> (\<forall>m\<in>set (meteoroid_group_exploded s). 1 \<le> m_state m)
       \<and> ids (meteoroid_group s) \<inter> ids (meteoroid_group_exploded s) = {}"
    by (auto simp: groups_ok_def ids_def)
  ultimately show ?thesis
    by blast
qed

text \<open>The state of the run after frame 115, with one meteoroid in each group.\<close>

theorem meteoroid_groups_invariant_witness:
  "play 4 round 0 (demo_inputs @ [idle_input]) = Running demo_115
   \<and> map m_state (meteoroid_group demo_115) = [0]
   \<and> map m_state (meteoroid_group_exploded demo_115) = [2]
   \<and> ids (meteoroid_group demo_115) \<inter> ids (meteoroid_group_exploded demo_115) = {}"
proof -
  have "map m_state (meteoroid_group demo_115) = [0]"
    "map m_state (meteoroid_group_exploded demo_115) = [2]"
    by (simp_all add: demo_115_def demo_state_def demo_m0_def demo_m1_def)
  with meteoroid_groups_invariant[OF demo_run_115] demo_run_115 show ?thesis
    by simp
qed

subsection \<open>C10: the player passes a border by one step at most\<close>

text \<open>
  C10. In every state of a run the player is at x in
  [- player_speed, windowwidth - 50 + player_speed] and y in
  [- player_speed, windowheight - 50 + player_speed].
\<close>

theorem player_overshoot_bounds:
  assumes "play n c t0 inps = Running s"
  shows "- player_speed \<le> rect_x (player s)
       \<and> rect_x (player s) \<le> windowwidth - 50 + player_speed
       \<and> - player_speed \<le> rect_y (player s)
       \<and> rect_y (player s) \<le> windowheight - 50 + player_speed"
  using play_player_ok[OF assms]
  by (simp add: player_ok_def windowwidth_def windowheight_def player_speed_def)

text \<open>After 121 frames of up the player is at y = -3.\<close>

theorem player_overshoot_bounds_witness:
  "play 4 round 0 (replicate 121 (press up_keys)) = Running (plain_state 121 False False True 0 1 100 (- 3))
   \<and> rect_y (player (plain_state 121 False False True 0 1 100 (- 3))) = - player_speed
   \<and> - player_speed \<le> rect_x (player (plain_state 121 False False True 0 1 100 (- 3)))
   \<and> rect_x (player (plain_state 121 False False True 0 1 100 (- 3))) \<le> windowwidth - 50 + player_speed"
  using player_overshoot_bounds[OF run_up_121] run_up_121
  by (simp add: plain_state_def Rect_def player_speed_def)

end
